theory Spec2Isabelle
  imports Main
begin

section \<open>JavaScript values and the operations server.js applies to them\<close>

text \<open>
  \<^verbatim>\<open>JSON.parse\<close> yields null, booleans, numbers, strings, arrays and objects; reading a
  property that is not there yields \<^verbatim>\<open>undefined\<close>. An object is the list of its own
  properties, each key once (a lookup takes the first entry of a key).

  A number is a double. The program never computes with a number of the feed: it tests
  it for truth, converts it to a string, and passes it to \<^verbatim>\<open>parseInt\<close>, which converts
  it to a string first. So a number is held by its string form, the text that
  \<^verbatim>\<open>String(x)\<close> gives for it: \<open>JNum ''5''\<close>, \<open>JNum ''-3''\<close>, \<open>JNum ''0.5''\<close>,
  \<open>JNum ''1e+21''\<close>, \<open>JNum ''Infinity''\<close>, \<open>JNum ''NaN''\<close>. Different numbers have
  different string forms, but for the two zeros, both \<open>JNum ''0''\<close>, which no operation
  of the program tells apart. The number that \<^verbatim>\<open>JSON.parse\<close> reads from a numeral is the
  double nearest to it: the value of the text \<^verbatim>\<open>9007199254740993\<close> is
  \<open>JNum ''9007199254740992''\<close>.

  A string is a list of UTF-16 code units, and a character of this development is a
  code unit below 256 (the characters of ISO 8859-1, \<open>CHR 0xA0\<close> being the no-break
  space), so that the length of a string is its number of characters. Strings with code
  units from 256 on are not values of this type.
\<close>

datatype jsval =
    Undefined
  | JNull
  | JBool bool
  | JNum string
  | JStr string
  | JArr "jsval list"
  | JObj "(string \<times> jsval) list"

text \<open>
  A thrown value. The engine throws \<^verbatim>\<open>TypeError\<close> (reading a property of null or
  undefined, calling what is not a function, converting an object that has no usable
  \<^verbatim>\<open>toString\<close>); its message text is the engine's. \<^verbatim>\<open>fetchESPN\<close> rejects with an
  \<^verbatim>\<open>Error\<close> that carries a message.
\<close>

datatype exn = TypeError | FetchError string

definition andThen :: "exn + 'a \<Rightarrow> ('a \<Rightarrow> exn + 'b) \<Rightarrow> exn + 'b" where
  "andThen m f = (case m of Inl e \<Rightarrow> Inl e | Inr x \<Rightarrow> f x)"

text \<open>\<^verbatim>\<open>ToBoolean\<close>: what \<^verbatim>\<open>&&\<close>, \<^verbatim>\<open>||\<close>, \<^verbatim>\<open>!\<close>, \<^verbatim>\<open>?:\<close> and \<^verbatim>\<open>if\<close> test.\<close>

fun truthy :: "jsval \<Rightarrow> bool" where
  "truthy Undefined = False"
| "truthy JNull = False"
| "truthy (JBool b) = b"
| "truthy (JNum n) = (n \<noteq> ''0'' \<and> n \<noteq> ''NaN'')"
| "truthy (JStr s) = (s \<noteq> [])"
| "truthy (JArr xs) = True"
| "truthy (JObj kvs) = True"

text \<open>\<^verbatim>\<open>a || b\<close> where \<open>b\<close> is a value already at hand (a literal, or a read that cannot throw).\<close>

definition js_or :: "jsval \<Rightarrow> jsval \<Rightarrow> jsval" where
  "js_or a b = (if truthy a then a else b)"

definition own :: "(string \<times> jsval) list \<Rightarrow> string \<Rightarrow> jsval" where
  "own kvs k = (case map_of kvs k of None \<Rightarrow> Undefined | Some v \<Rightarrow> v)"

text \<open>
  \<^verbatim>\<open>v.k\<close> for the data fields the program reads (\<^verbatim>\<open>events\<close>, \<^verbatim>\<open>competitions\<close>,
  \<^verbatim>\<open>status\<close>, \<^verbatim>\<open>type\<close>, \<^verbatim>\<open>name\<close>, \<^verbatim>\<open>period\<close>, \<^verbatim>\<open>shortDetail\<close>, \<^verbatim>\<open>competitors\<close>,
  \<^verbatim>\<open>score\<close>, \<^verbatim>\<open>sortOrder\<close>, \<^verbatim>\<open>linescores\<close>, \<^verbatim>\<open>athlete\<close>, \<^verbatim>\<open>displayName\<close>). None of them
  is a property of a prototype, so a number, boolean, string or array answers
  \<^verbatim>\<open>undefined\<close>, and null and undefined throw.
\<close>

fun getField :: "jsval \<Rightarrow> string \<Rightarrow> exn + jsval" where
  "getField Undefined k = Inl TypeError"
| "getField JNull k = Inl TypeError"
| "getField (JObj kvs) k = Inr (own kvs k)"
| "getField v k = Inr Undefined"

text \<open>\<^verbatim>\<open>v && v.k\<close>: the guard the program writes before each nested read.\<close>

definition andField :: "jsval \<Rightarrow> string \<Rightarrow> exn + jsval" where
  "andField v k = (if truthy v then getField v k else Inr v)"

text \<open>\<^verbatim>\<open>v[0]\<close>.\<close>

fun getIndex0 :: "jsval \<Rightarrow> exn + jsval" where
  "getIndex0 Undefined = Inl TypeError"
| "getIndex0 JNull = Inl TypeError"
| "getIndex0 (JArr xs) = Inr (case xs of [] \<Rightarrow> Undefined | x # _ \<Rightarrow> x)"
| "getIndex0 (JStr s) = Inr (case s of [] \<Rightarrow> Undefined | c # _ \<Rightarrow> JStr [c])"
| "getIndex0 (JObj kvs) = Inr (own kvs ''0'')"
| "getIndex0 v = Inr Undefined"

subsection \<open>Integers as numbers\<close>

definition digit_char :: "nat \<Rightarrow> char" where
  "digit_char d = ''0123456789'' ! d"

fun dec_nat :: "nat \<Rightarrow> string" where
  "dec_nat n = (if n < 10 then [digit_char n] else dec_nat (n div 10) @ [digit_char (n mod 10)])"

declare dec_nat.simps [simp del]

text \<open>The decimal digits of an integer, with \<^verbatim>\<open>-\<close> in front when it is negative.\<close>

definition dec :: "int \<Rightarrow> string" where
  "dec i = (if i < 0 then CHR ''-'' # dec_nat (nat (- i)) else dec_nat (nat i))"

text \<open>
  A double holds every integer up to \<open>2^53\<close> in absolute value exactly, and the string
  form of such a number is its decimal digits: these are the numbers the program makes
  itself (\<^verbatim>\<open>idx + 1\<close>, the length of an array or a string, the literal \<^verbatim>\<open>1\<close>). A larger
  integer \<open>m\<close> becomes the double nearest to it (\<^verbatim>\<open>Infinity\<close> beyond the largest
  double), whose string form keeps 17 digits at most and is in exponent notation from
  \<open>10^21\<close> on (\<^verbatim>\<open>1e+21\<close>); this development does not compute that text: \<open>big m\<close>
  stands for the engine's answer, and every theorem holds for every \<open>big\<close>.
\<close>

definition numberOf :: "(int \<Rightarrow> string) \<Rightarrow> int \<Rightarrow> jsval" where
  "numberOf big m = JNum (if \<bar>m\<bar> \<le> 2 ^ 53 then dec m else big m)"

text \<open>
  \<^verbatim>\<open>v.length\<close> of a value that is not null or undefined. An array has fewer than
  \<open>2^32\<close> elements and a string fewer than \<open>2^53\<close> characters.
\<close>

fun js_length :: "jsval \<Rightarrow> jsval" where
  "js_length (JArr xs) = JNum (dec (int (length xs)))"
| "js_length (JStr s) = JNum (dec (int (length s)))"
| "js_length (JObj kvs) = own kvs ''length''"
| "js_length v = Undefined"

subsection \<open>\<^verbatim>\<open>ToString\<close>\<close>

text \<open>
  \<^verbatim>\<open>String(v)\<close>, and \<^verbatim>\<open>'...' + v\<close>. A number gives its string form. An object made by
  \<^verbatim>\<open>JSON.parse\<close> inherits \<^verbatim>\<open>Object.prototype.toString\<close> and prints as
  \<^verbatim>\<open>[object Object]\<close>, unless it has an own property \<^verbatim>\<open>toString\<close>: that is data, not
  a function, \<^verbatim>\<open>valueOf\<close> returns the object itself, and the conversion throws. An
  array joins its elements with commas, null and undefined elements printing as the
  empty string.
\<close>

fun js_toString :: "jsval \<Rightarrow> exn + string"
  and joinElems :: "jsval list \<Rightarrow> exn + string" where
  "js_toString Undefined = Inr ''undefined''"
| "js_toString JNull = Inr ''null''"
| "js_toString (JBool b) = Inr (if b then ''true'' else ''false'')"
| "js_toString (JNum n) = Inr n"
| "js_toString (JStr s) = Inr s"
| "js_toString (JArr xs) = joinElems xs"
| "js_toString (JObj kvs) =
     (if map_of kvs ''toString'' \<noteq> None then Inl TypeError else Inr ''[object Object]'')"
| "joinElems [] = Inr ''''"
| "joinElems (x # xs) =
     andThen (if x = Undefined \<or> x = JNull then Inr '''' else js_toString x) (\<lambda>s.
       if xs = [] then Inr s
       else andThen (joinElems xs) (\<lambda>r. Inr (s @ '','' @ r)))"

subsection \<open>\<^verbatim>\<open>parseInt\<close> and \<^verbatim>\<open>toLowerCase\<close>\<close>

text \<open>
  The white space and line terminators that \<^verbatim>\<open>parseInt\<close> skips, among the characters
  below 256: tab, line feed, vertical tab, form feed, carriage return, space and
  no-break space. (The others are U+1680, U+2000 to U+200A, U+2028, U+2029, U+202F,
  U+205F, U+3000 and U+FEFF.)
\<close>

definition is_ws :: "char \<Rightarrow> bool" where
  "is_ws c = (c \<in> set [CHR 0x09, CHR 0x0A, CHR 0x0B, CHR 0x0C, CHR 0x0D, CHR 0x20, CHR 0xA0])"

definition digit_table :: "(char \<times> nat) list" where
  "digit_table =
     [(CHR ''0'', 0), (CHR ''1'', 1), (CHR ''2'', 2), (CHR ''3'', 3), (CHR ''4'', 4),
      (CHR ''5'', 5), (CHR ''6'', 6), (CHR ''7'', 7), (CHR ''8'', 8), (CHR ''9'', 9),
      (CHR ''a'', 10), (CHR ''b'', 11), (CHR ''c'', 12), (CHR ''d'', 13), (CHR ''e'', 14),
      (CHR ''f'', 15), (CHR ''A'', 10), (CHR ''B'', 11), (CHR ''C'', 12), (CHR ''D'', 13),
      (CHR ''E'', 14), (CHR ''F'', 15)]"

definition digit_of :: "nat \<Rightarrow> char \<Rightarrow> nat option" where
  "digit_of radix c =
     (case map_of digit_table c of
        None \<Rightarrow> None
      | Some d \<Rightarrow> if d < radix then Some d else None)"

definition radix_value :: "nat \<Rightarrow> string \<Rightarrow> nat" where
  "radix_value radix z =
     foldl (\<lambda>acc c. acc * radix + (case digit_of radix c of None \<Rightarrow> 0 | Some d \<Rightarrow> d)) 0 z"

text \<open>
  What \<^verbatim>\<open>parseInt(s)\<close> reads from a string, with no radix argument: leading white
  space is dropped, a sign is read, \<^verbatim>\<open>0x\<close> or \<^verbatim>\<open>0X\<close> selects radix 16, and the longest
  run of digits denotes an integer, of any size (the \<open>mathInt\<close> of the standard, with
  its sign); \<open>None\<close> when there is no digit.
\<close>

definition mathInt :: "string \<Rightarrow> int option" where
  "mathInt s =
     (let S = dropWhile is_ws s;
          neg = (take 1 S = ''-'');
          S1 = (if take 1 S = ''-'' \<or> take 1 S = ''+'' then drop 1 S else S);
          hex = (take 2 S1 = ''0x'' \<or> take 2 S1 = ''0X'');
          R = (if hex then 16 else 10);
          S2 = (if hex then drop 2 S1 else S1);
          Z = takeWhile (\<lambda>c. digit_of R c \<noteq> None) S2
      in if Z = [] then None
         else Some ((if neg then - 1 else 1) * int (radix_value R Z)))"

text \<open>
  \<^verbatim>\<open>parseInt(v)\<close>: the argument is converted to a string first, and the result is a
  number: \<^verbatim>\<open>NaN\<close> when there is no digit, else the double for the integer read.
\<close>

definition js_parseInt :: "(int \<Rightarrow> string) \<Rightarrow> jsval \<Rightarrow> exn + jsval" where
  "js_parseInt big v =
     andThen (js_toString v) (\<lambda>s.
       Inr (case mathInt s of None \<Rightarrow> JNum ''NaN'' | Some m \<Rightarrow> numberOf big m))"

text \<open>
  \<^verbatim>\<open>n < 0\<close> for a number \<open>n\<close>: the string form of a negative number, and of no other,
  begins with \<^verbatim>\<open>-\<close>.
\<close>

fun negative :: "jsval \<Rightarrow> bool" where
  "negative (JNum n) = (take 1 n = ''-'')"
| "negative v = False"

text \<open>
  The lower-case letter of a character below 256: of \<^verbatim>\<open>A\<close> to \<^verbatim>\<open>Z\<close>, and of the
  capital letters from \<open>0xC0\<close> to \<open>0xDE\<close>, 32 places on (\<open>0xD7\<close> is the multiplication
  sign).
\<close>

definition upper_chars :: "char list" where
  "upper_chars = ''ABCDEFGHIJKLMNOPQRSTUVWXYZ'' @
     [CHR 0xC0, CHR 0xC1, CHR 0xC2, CHR 0xC3, CHR 0xC4, CHR 0xC5, CHR 0xC6, CHR 0xC7,
      CHR 0xC8, CHR 0xC9, CHR 0xCA, CHR 0xCB, CHR 0xCC, CHR 0xCD, CHR 0xCE, CHR 0xCF,
      CHR 0xD0, CHR 0xD1, CHR 0xD2, CHR 0xD3, CHR 0xD4, CHR 0xD5, CHR 0xD6,
      CHR 0xD8, CHR 0xD9, CHR 0xDA, CHR 0xDB, CHR 0xDC, CHR 0xDD, CHR 0xDE]"

definition lower_chars :: "char list" where
  "lower_chars = ''abcdefghijklmnopqrstuvwxyz'' @
     [CHR 0xE0, CHR 0xE1, CHR 0xE2, CHR 0xE3, CHR 0xE4, CHR 0xE5, CHR 0xE6, CHR 0xE7,
      CHR 0xE8, CHR 0xE9, CHR 0xEA, CHR 0xEB, CHR 0xEC, CHR 0xED, CHR 0xEE, CHR 0xEF,
      CHR 0xF0, CHR 0xF1, CHR 0xF2, CHR 0xF3, CHR 0xF4, CHR 0xF5, CHR 0xF6,
      CHR 0xF8, CHR 0xF9, CHR 0xFA, CHR 0xFB, CHR 0xFC, CHR 0xFD, CHR 0xFE]"

definition lower_char :: "char \<Rightarrow> char" where
  "lower_char c =
     (case map_of (zip upper_chars lower_chars) c of
        None \<Rightarrow> c
      | Some l \<Rightarrow> l)"

text \<open>
  \<^verbatim>\<open>v.toLowerCase()\<close>: only a string has the method; on any other value the property is
  undefined (or data) and the call throws.
\<close>

fun js_toLowerCase :: "jsval \<Rightarrow> exn + string" where
  "js_toLowerCase (JStr s) = Inr (map lower_char s)"
| "js_toLowerCase v = Inl TypeError"

subsection \<open>Array methods\<close>

text \<open>
  \<^verbatim>\<open>xs.find(f)\<close> and \<^verbatim>\<open>xs.map(f)\<close>: only an array has the methods. The callback runs on
  the elements in order, and an exception of the callback ends the call.
\<close>

fun findFirst :: "(jsval \<Rightarrow> exn + bool) \<Rightarrow> jsval list \<Rightarrow> exn + jsval" where
  "findFirst f [] = Inr Undefined"
| "findFirst f (x # xs) =
     andThen (f x) (\<lambda>b. if b then Inr x else findFirst f xs)"

fun callFind :: "(jsval \<Rightarrow> exn + bool) \<Rightarrow> jsval \<Rightarrow> exn + jsval" where
  "callFind f (JArr xs) = findFirst f xs"
| "callFind f v = Inl TypeError"

fun mapIdx :: "(nat \<Rightarrow> jsval \<Rightarrow> exn + 'a) \<Rightarrow> nat \<Rightarrow> jsval list \<Rightarrow> exn + 'a list" where
  "mapIdx f i [] = Inr []"
| "mapIdx f i (x # xs) =
     andThen (f i x) (\<lambda>y. andThen (mapIdx f (Suc i) xs) (\<lambda>ys. Inr (y # ys)))"

fun callMap :: "(nat \<Rightarrow> jsval \<Rightarrow> exn + 'a) \<Rightarrow> jsval \<Rightarrow> exn + 'a list" where
  "callMap f (JArr xs) = mapIdx f 0 xs"
| "callMap f v = Inl TypeError"

subsection \<open>\<^verbatim>\<open>x.length > 0\<close> and \<^verbatim>\<open>x[x.length - 1]\<close>\<close>

text \<open>
  The program tests \<^verbatim>\<open>c.linescores.length > 0\<close> and reads
  \<^verbatim>\<open>c.linescores[c.linescores.length - 1]\<close>. \<open>positiveIndex v\<close> is that test on the
  length \<open>v\<close>, with the property key \<^verbatim>\<open>String(v - 1)\<close> when it holds and \<open>None\<close> when
  it does not. \<^verbatim>\<open>undefined\<close> and \<^verbatim>\<open>[object Object]\<close> convert to \<^verbatim>\<open>NaN\<close>, null to 0,
  \<^verbatim>\<open>true\<close> to 1. The number a string converts to is a floating-point value, which this
  development does not compute: \<open>nk s\<close> stands for the engine's answer on the string
  \<open>s\<close> (\<open>None\<close> when \<^verbatim>\<open>Number(s) > 0\<close> is false, else the key
  \<^verbatim>\<open>String(Number(s) - 1)\<close>), and every theorem holds for every \<open>nk\<close>. A number that is
  an integer up to \<open>2^53\<close> is compared and decremented exactly; any other number is
  the number that its string form converts to. The length of an array or a string is
  not looked up here (see \<open>lastEntry\<close>): \<open>nk\<close> is consulted only when \<^verbatim>\<open>linescores\<close> is
  an object with an own \<^verbatim>\<open>length\<close> that is a string, an array, or a number that is no
  such integer.
\<close>

definition safeInteger :: "string \<Rightarrow> int option" where
  "safeInteger n =
     (case mathInt n of
        None \<Rightarrow> None
      | Some k \<Rightarrow> if \<bar>k\<bar> \<le> 2 ^ 53 \<and> dec k = n then Some k else None)"

fun positiveIndex :: "(string \<Rightarrow> string option) \<Rightarrow> jsval \<Rightarrow> exn + string option" where
  "positiveIndex nk Undefined = Inr None"
| "positiveIndex nk JNull = Inr None"
| "positiveIndex nk (JBool b) = Inr (if b then Some ''0'' else None)"
| "positiveIndex nk (JNum n) =
     Inr (case safeInteger n of
            None \<Rightarrow> nk n
          | Some k \<Rightarrow> if k > 0 then Some (dec (k - 1)) else None)"
| "positiveIndex nk (JStr s) = Inr (nk s)"
| "positiveIndex nk (JArr xs) = andThen (joinElems xs) (\<lambda>s. Inr (nk s))"
| "positiveIndex nk (JObj kvs) = andThen (js_toString (JObj kvs)) (\<lambda>s. Inr None)"

text \<open>
  For a truthy \<open>ls\<close>: \<open>None\<close> when \<^verbatim>\<open>ls.length > 0\<close> is false, else the value of
  \<^verbatim>\<open>ls[ls.length - 1]\<close>.
\<close>

fun lastEntry :: "(string \<Rightarrow> string option) \<Rightarrow> jsval \<Rightarrow> exn + jsval option" where
  "lastEntry nk (JArr xs) = Inr (if xs = [] then None else Some (last xs))"
| "lastEntry nk (JStr s) = Inr (if s = [] then None else Some (JStr [last s]))"
| "lastEntry nk (JObj kvs) =
     andThen (positiveIndex nk (js_length (JObj kvs))) (\<lambda>k. Inr (map_option (own kvs) k))"
| "lastEntry nk v = Inr None"

section \<open>The normalizer: \<^verbatim>\<open>parseLeaderboard\<close>\<close>

record player =
  name :: jsval
  score :: string
  thru :: string
  position :: string

text \<open>
  The three shapes \<^verbatim>\<open>getLeaderboard\<close> returns: \<^verbatim>\<open>{status: 'no_tournament'}\<close>, the
  \<^verbatim>\<open>status: 'ok'\<close> object, and \<^verbatim>\<open>{status: 'error', message: e.message}\<close> (the caught
  error stands for its message). The tournament name, the round status and a player's
  name are whatever the feed holds there, not always strings.
\<close>

datatype snapshot =
    NoTournament
  | Ok (tournament: jsval) (round: string) (roundStatus: jsval) (players: "player list")
      (fetchedAt: string)
  | Error (message: exn)

text \<open>
  What one call reads from outside: \<^verbatim>\<open>Date.now()\<close>, \<^verbatim>\<open>new Date().toISOString()\<close>, how
  the promise of \<^verbatim>\<open>fetchESPN()\<close> settles, and the engine's floating-point arithmetic:
  its string-to-number conversion (see \<open>positiveIndex\<close>) and its string form of the
  integers beyond \<open>2^53\<close> (see \<open>numberOf\<close>).
\<close>

datatype fetch_result = Resolved jsval | Rejected string

record env =
  dateNow :: int
  isoString :: string
  fetched :: fetch_result
  numKey :: "string \<Rightarrow> string option"
  bigString :: "int \<Rightarrow> string"

text \<open>\<^verbatim>\<open>x.competitions && x.competitions[0]\<close> (lines 41 and 51).\<close>

definition primaryCompetition :: "jsval \<Rightarrow> exn + jsval" where
  "primaryCompetition x =
     andThen (getField x ''competitions'') (\<lambda>cs.
       if truthy cs then getIndex0 cs else Inr cs)"

text \<open>\<^verbatim>\<open>compet.status && compet.status.type && compet.status.type.k || ''\<close> (lines 43, 54, 61).\<close>

definition statusTypeField :: "jsval \<Rightarrow> string \<Rightarrow> exn + jsval" where
  "statusTypeField compet k =
     andThen (getField compet ''status'') (\<lambda>s.
     andThen (andField s ''type'') (\<lambda>t.
     andThen (andField t k) (\<lambda>v.
       Inr (js_or v (JStr '''')))))"

text \<open>The callback of \<^verbatim>\<open>events.find\<close> (lines 40-45).\<close>

definition isActiveEvent :: "jsval \<Rightarrow> exn + bool" where
  "isActiveEvent e =
     andThen (primaryCompetition e) (\<lambda>compet.
       if \<not> truthy compet then Inr False
       else andThen (statusTypeField compet ''name'') (\<lambda>statusName.
         Inr (statusName = JStr ''STATUS_IN_PROGRESS''
              \<or> statusName = JStr ''STATUS_PLAY_COMPLETE'')))"

text \<open>\<^verbatim>\<open>events.find(...) || events[0]\<close> (lines 40-45).\<close>

definition selectActiveEvent :: "jsval \<Rightarrow> exn + jsval" where
  "selectActiveEvent events =
     andThen (callFind isActiveEvent events) (\<lambda>found.
       if truthy found then Inr found else getIndex0 events)"

definition validStatuses :: "jsval list" where
  "validStatuses =
     [JStr ''STATUS_IN_PROGRESS'', JStr ''STATUS_SCHEDULED'', JStr ''STATUS_FINAL'',
      JStr ''STATUS_PLAY_COMPLETE'']"

text \<open>The callback of \<^verbatim>\<open>competitors.map\<close>, block by block: the score (lines 65-67).\<close>

definition scoreOf :: "(int \<Rightarrow> string) \<Rightarrow> jsval \<Rightarrow> exn + string" where
  "scoreOf big c =
     andThen (getField c ''score'') (\<lambda>sc.
       let rawScore = js_or sc (JStr ''0'') in
       andThen (js_parseInt big rawScore) (\<lambda>n.
         if n = JNum ''NaN'' then Inr ''E''
         else if n = JNum ''0'' then Inr ''E''
         else if negative n then js_toString n
         else andThen (js_toString n) (\<lambda>s. Inr (''+'' @ s))))"

text \<open>The position (lines 69-78).\<close>

definition posOf :: "nat \<Rightarrow> jsval \<Rightarrow> exn + string" where
  "posOf idx c =
     andThen (getField c ''status'') (\<lambda>st.
     andThen (js_toLowerCase (js_or st (JStr ''''))) (\<lambda>athleteStatus.
       if athleteStatus = ''cut'' then Inr ''MC''
       else if athleteStatus = ''wd'' then Inr ''WD''
       else andThen (getField c ''sortOrder'') (\<lambda>sortOrder.
         if truthy sortOrder then js_toString sortOrder
         else Inr (dec (int idx + 1)))))"

text \<open>The holes played (lines 80-92).\<close>

definition thruOf :: "(string \<Rightarrow> string option) \<Rightarrow> bool \<Rightarrow> jsval \<Rightarrow> exn + string" where
  "thruOf nk isFinished c =
     (if isFinished then Inr ''F''
      else andThen (getField c ''linescores'') (\<lambda>ls.
        if \<not> truthy ls then Inr ''--''
        else andThen (lastEntry nk ls) (\<lambda>r.
          case r of
            None \<Rightarrow> Inr ''--''
          | Some currentRound \<Rightarrow>
              andThen (andField currentRound ''linescores'') (\<lambda>sub.
                if truthy sub then js_toString (js_length sub) else Inr ''F''))))"

text \<open>\<^verbatim>\<open>c.athlete && c.athlete.displayName || ''\<close> (line 95).\<close>

definition nameOf :: "jsval \<Rightarrow> exn + jsval" where
  "nameOf c =
     andThen (getField c ''athlete'') (\<lambda>a.
     andThen (andField a ''displayName'') (\<lambda>d.
       Inr (js_or d (JStr ''''))))"

text \<open>The callback as a whole (lines 64-99), its blocks in the order of the source.\<close>

definition playerEntry ::
  "(string \<Rightarrow> string option) \<Rightarrow> (int \<Rightarrow> string) \<Rightarrow> bool \<Rightarrow> nat \<Rightarrow> jsval \<Rightarrow> exn + player" where
  "playerEntry nk big isFinished idx c =
     andThen (scoreOf big c) (\<lambda>sc.
     andThen (posOf idx c) (\<lambda>pos.
     andThen (thruOf nk isFinished c) (\<lambda>th.
     andThen (nameOf c) (\<lambda>nm.
       Inr \<lparr>name = nm, score = sc, thru = th, position = pos\<rparr>))))"

text \<open>Lines 54-111: the snapshot of the selected event and its first competition.\<close>

definition leaderboardOf :: "env \<Rightarrow> jsval \<Rightarrow> jsval \<Rightarrow> exn + snapshot" where
  "leaderboardOf e activeEvent compet =
     andThen (statusTypeField compet ''name'') (\<lambda>statusName.
       if statusName \<notin> set validStatuses then Inr NoTournament
       else
         andThen (getField compet ''status'') (\<lambda>st.
         andThen (andField st ''period'') (\<lambda>period.
         let roundNum = js_or period (JNum ''1'') in
         andThen (statusTypeField compet ''shortDetail'') (\<lambda>statusDesc.
         let isFinished = (statusName = JStr ''STATUS_FINAL''
                           \<or> statusName = JStr ''STATUS_PLAY_COMPLETE'') in
         andThen (getField compet ''competitors'') (\<lambda>cs.
         andThen (callMap (playerEntry (numKey e) (bigString e) isFinished)
                    (js_or cs (JArr []))) (\<lambda>mapped.
         let ps = filter (\<lambda>p. truthy (name p)) mapped in
         if ps = [] then Inr NoTournament
         else
           andThen (getField activeEvent ''name'') (\<lambda>nm.
           andThen (js_toString roundNum) (\<lambda>r.
             Inr (Ok (js_or nm (JStr ''PGA Tour Event'')) (''Round '' @ r) statusDesc ps
                    (isoString e))))))))))"

text \<open>Lines 36-52, then the rest.\<close>

definition parseLeaderboard :: "env \<Rightarrow> jsval \<Rightarrow> exn + snapshot" where
  "parseLeaderboard e espnData =
     andThen (getField espnData ''events'') (\<lambda>ev.
     let events = js_or ev (JArr []) in
     andThen (selectActiveEvent events) (\<lambda>activeEvent.
       if \<not> truthy activeEvent then Inr NoTournament
       else
         andThen (primaryCompetition activeEvent) (\<lambda>compet.
           if \<not> truthy compet then Inr NoTournament
           else leaderboardOf e activeEvent compet)))"

section \<open>The cache: \<^verbatim>\<open>getLeaderboard\<close>\<close>

text \<open>
  The module variables \<^verbatim>\<open>cache\<close> (null at the start) and \<^verbatim>\<open>cacheTime\<close>, and two counters
  that the program does not hold: the requests \<^verbatim>\<open>fetchESPN\<close> has sent, and those of
  them that have not settled yet.
\<close>

record server_state =
  cache :: "snapshot option"
  cacheTime :: int
  fetches :: nat
  inflight :: nat

definition CACHE_TTL :: int where
  "CACHE_TTL = 60 * 1000"

definition initial_state :: server_state where
  "initial_state = \<lparr>cache = None, cacheTime = 0, fetches = 0, inflight = 0\<rparr>"

text \<open>
  The argument of the \<^verbatim>\<open>console.log\<close> of lines 128-129; evaluating it converts the
  tournament name to a string, which can throw.
\<close>

fun logSummary :: "snapshot \<Rightarrow> exn + string" where
  "logSummary (Ok t r rs ps f) =
     andThen (js_toString t) (\<lambda>s.
       Inr (s @ '' '' @ r @ '' ('' @ dec (int (length ps)) @ '' players)''))"
| "logSummary NoTournament = Inr ''no_tournament''"
| "logSummary (Error m) = Inr ''error''"

text \<open>
  \<^verbatim>\<open>getLeaderboard\<close> is an \<^verbatim>\<open>async\<close> function with one \<^verbatim>\<open>await\<close>. It runs without
  interruption up to the \<^verbatim>\<open>await\<close> (lines 120-125: the cache test, and the request is
  sent), and again from the settlement of the promise to the \<^verbatim>\<open>return\<close> (lines 125-135);
  other calls may run in between. A call that has sent its request keeps its local
  \<^verbatim>\<open>now\<close>.
\<close>

datatype call = Done snapshot | Awaiting int

definition beginCall :: "env \<Rightarrow> server_state \<Rightarrow> call \<times> server_state" where
  "beginCall e st =
     (let now = dateNow e;
          sent = (Awaiting now, st\<lparr>fetches := fetches st + 1, inflight := inflight st + 1\<rparr>)
      in case cache st of
           None \<Rightarrow> sent
         | Some c \<Rightarrow> if now - cacheTime st < CACHE_TTL then (Done c, st) else sent)"

text \<open>The \<^verbatim>\<open>catch\<close> block (lines 131-135).\<close>

definition onError :: "exn \<Rightarrow> server_state \<Rightarrow> snapshot \<times> server_state" where
  "onError x st = (case cache st of Some c \<Rightarrow> (c, st) | None \<Rightarrow> (Error x, st))"

definition resumeCall ::
  "env \<Rightarrow> int \<Rightarrow> fetch_result \<Rightarrow> server_state \<Rightarrow> snapshot \<times> server_state" where
  "resumeCall e now r st0 =
     (let st = st0\<lparr>inflight := inflight st0 - 1\<rparr> in
      case r of
        Rejected m \<Rightarrow> onError (FetchError m) st
      | Resolved raw \<Rightarrow>
          (case parseLeaderboard e raw of
             Inl x \<Rightarrow> onError x st
           | Inr snap \<Rightarrow>
               (let st' = st\<lparr>cache := Some snap, cacheTime := now\<rparr> in
                case logSummary snap of
                  Inl x \<Rightarrow> onError x st'
                | Inr line \<Rightarrow> (snap, st'))))"

text \<open>One call that nothing interrupts: both halves, one after the other.\<close>

definition getLeaderboard :: "env \<Rightarrow> server_state \<Rightarrow> snapshot \<times> server_state" where
  "getLeaderboard e st =
     (case beginCall e st of
        (Done c, st') \<Rightarrow> (c, st')
      | (Awaiting now, st') \<Rightarrow> resumeCall e now (fetched e) st')"

section \<open>The request handler\<close>

text \<open>
  \<^verbatim>\<open>req.method\<close> (here \<open>reqMethod\<close>) and \<^verbatim>\<open>req.url\<close>; the status code of \<^verbatim>\<open>res.writeHead\<close> and the value
  whose \<^verbatim>\<open>JSON.stringify\<close> is the body. The four headers are the same on every response
  and are left out. \<^verbatim>\<open>getLeaderboard\<close> catches every exception of its body and the
  snapshot it returns has a JSON text, so the handler's own \<^verbatim>\<open>catch\<close> (status 500) is
  never entered.
\<close>

record request =
  reqMethod :: string
  url :: string

datatype resp_body = NoBody | LeaderboardJson snapshot | HealthJson | NotFoundJson

record response =
  statusCode :: nat
  body :: resp_body

definition handler :: "env \<Rightarrow> request \<Rightarrow> server_state \<Rightarrow> response \<times> server_state" where
  "handler e req st =
     (if reqMethod req = ''OPTIONS'' then (\<lparr>statusCode = 204, body = NoBody\<rparr>, st)
      else if url req = ''/leaderboard'' \<or> url req = ''/'' then
        (case getLeaderboard e st of
           (d, st') \<Rightarrow> (\<lparr>statusCode = 200, body = LeaderboardJson d\<rparr>, st'))
      else if url req = ''/health'' then (\<lparr>statusCode = 200, body = HealthJson\<rparr>, st)
      else (\<lparr>statusCode = 404, body = NotFoundJson\<rparr>, st))"

section \<open>Notions the properties are stated with\<close>

text \<open>
  The refresh of a call (lines 125-126) fails when the promise of \<^verbatim>\<open>fetchESPN\<close> rejects
  or \<^verbatim>\<open>parseLeaderboard\<close> throws: control reaches the \<^verbatim>\<open>catch\<close> block with nothing
  stored. \<open>refreshError\<close> is the caught error, \<open>None\<close> when there is none.
\<close>

definition refreshError :: "env \<Rightarrow> exn option" where
  "refreshError e =
     (case fetched e of
        Rejected m \<Rightarrow> Some (FetchError m)
      | Resolved raw \<Rightarrow> (case parseLeaderboard e raw of Inl x \<Rightarrow> Some x | Inr snap \<Rightarrow> None))"

text \<open>Calls that do not overlap: each runs to its end before the next begins.\<close>

fun runSequential :: "env list \<Rightarrow> server_state \<Rightarrow> server_state" where
  "runSequential [] st = st"
| "runSequential (e # es) st = runSequential es (snd (getLeaderboard e st))"

text \<open>Reads that do not throw: \<^verbatim>\<open>undefined\<close> where the program would.\<close>

definition nullish :: "jsval \<Rightarrow> bool" where
  "nullish v = (v = Undefined \<or> v = JNull)"

definition field :: "jsval \<Rightarrow> string \<Rightarrow> jsval" where
  "field v k = (case v of JObj kvs \<Rightarrow> own kvs k | _ \<Rightarrow> Undefined)"

definition firstOf :: "jsval \<Rightarrow> jsval" where
  "firstOf v = (case getIndex0 v of Inl x \<Rightarrow> Undefined | Inr y \<Rightarrow> y)"

text \<open>
  The selection rule in the words of the specification: the primary competition of an
  event is the first of its competitions, its status name is the \<^verbatim>\<open>name\<close> of the
  \<^verbatim>\<open>type\<close> of its \<^verbatim>\<open>status\<close>, and the active event is the first event whose status name
  is \<^verbatim>\<open>STATUS_IN_PROGRESS\<close> or \<^verbatim>\<open>STATUS_PLAY_COMPLETE\<close>, else the first event.
\<close>

definition spec_primary :: "jsval \<Rightarrow> jsval" where
  "spec_primary ev = firstOf (field ev ''competitions'')"

definition spec_statusName :: "jsval \<Rightarrow> jsval" where
  "spec_statusName ev = field (field (field (spec_primary ev) ''status'') ''type'') ''name''"

definition spec_isLive :: "jsval \<Rightarrow> bool" where
  "spec_isLive ev = (spec_statusName ev = JStr ''STATUS_IN_PROGRESS''
                     \<or> spec_statusName ev = JStr ''STATUS_PLAY_COMPLETE'')"

definition spec_activeEvent :: "jsval list \<Rightarrow> jsval" where
  "spec_activeEvent es =
     (case find spec_isLive es of
        Some ev \<Rightarrow> ev
      | None \<Rightarrow> (case es of [] \<Rightarrow> Undefined | ev # _ \<Rightarrow> ev))"

definition spec_events :: "jsval \<Rightarrow> jsval list" where
  "spec_events d = (case field d ''events'' of JArr es \<Rightarrow> es | _ \<Rightarrow> [])"

text \<open>
  The competitors of a payload are the entries of the \<^verbatim>\<open>competitors\<close> list of the
  primary competition of its active event, in the order of the list, and the payload is
  finished when the status name of that competition is \<^verbatim>\<open>STATUS_FINAL\<close> or
  \<^verbatim>\<open>STATUS_PLAY_COMPLETE\<close>.
\<close>

definition spec_competitors :: "jsval \<Rightarrow> jsval list" where
  "spec_competitors d =
     (case field (spec_primary (spec_activeEvent (spec_events d))) ''competitors'' of
        JArr cs \<Rightarrow> cs
      | _ \<Rightarrow> [])"

definition spec_finished :: "jsval \<Rightarrow> bool" where
  "spec_finished d =
     (spec_statusName (spec_activeEvent (spec_events d)) = JStr ''STATUS_FINAL''
      \<or> spec_statusName (spec_activeEvent (spec_events d)) = JStr ''STATUS_PLAY_COMPLETE'')"

text \<open>
  The payloads on which the normalizer does not throw: every value it calls a method
  on, or converts to a string, is absent (or falsy) or of the type the program expects.
\<close>

definition stringable :: "jsval \<Rightarrow> bool" where
  "stringable v = (case js_toString v of Inl x \<Rightarrow> False | Inr s \<Rightarrow> True)"

definition listOrAbsent :: "(jsval \<Rightarrow> bool) \<Rightarrow> jsval \<Rightarrow> bool" where
  "listOrAbsent P v = (case v of JArr xs \<Rightarrow> list_all P xs | _ \<Rightarrow> \<not> truthy v)"

definition stringOrAbsent :: "jsval \<Rightarrow> bool" where
  "stringOrAbsent v = (case v of JStr s \<Rightarrow> True | _ \<Rightarrow> \<not> truthy v)"

definition roundShaped :: "jsval \<Rightarrow> bool" where
  "roundShaped r = listOrAbsent (\<lambda>h. True) (field r ''linescores'')"

definition competitorShaped :: "jsval \<Rightarrow> bool" where
  "competitorShaped c =
     (\<not> nullish c \<and> stringOrAbsent (field c ''status'') \<and> stringable (field c ''score'')
      \<and> stringable (field c ''sortOrder'') \<and> listOrAbsent roundShaped (field c ''linescores''))"

definition competitionShaped :: "jsval \<Rightarrow> bool" where
  "competitionShaped compet =
     (stringable (field (field compet ''status'') ''period'')
      \<and> listOrAbsent competitorShaped (field compet ''competitors''))"

definition eventShaped :: "jsval \<Rightarrow> bool" where
  "eventShaped ev = (\<not> nullish ev \<and> competitionShaped (spec_primary ev))"

definition wellShaped :: "jsval \<Rightarrow> bool" where
  "wellShaped d = (\<not> nullish d \<and> listOrAbsent eventShaped (field d ''events''))"

text \<open>
  The spellings of \<^verbatim>\<open>cut\<close> and \<^verbatim>\<open>wd\<close> in upper and lower case: what
  "equals, case-insensitively" means.
\<close>

definition cutSpellings :: "string list" where
  "cutSpellings = [''cut'', ''cuT'', ''cUt'', ''cUT'', ''Cut'', ''CuT'', ''CUt'', ''CUT'']"

definition wdSpellings :: "string list" where
  "wdSpellings = [''wd'', ''wD'', ''Wd'', ''WD'']"

section \<open>Example inputs\<close>

text \<open>
  The engine of the examples: no example consults \<open>numKey\<close>, and the only integer beyond
  \<open>2^53\<close> in them is \<open>10^21\<close>, whose string form is \<^verbatim>\<open>1e+21\<close>.
\<close>

definition envAt :: "int \<Rightarrow> fetch_result \<Rightarrow> env" where
  "envAt t r = \<lparr>dateNow = t, isoString = ''2026-01-01T00:00:00.000Z'', fetched = r,
                numKey = (\<lambda>s. None), bigString = (\<lambda>m. ''1e+21'')\<rparr>"

definition timedOut :: fetch_result where
  "timedOut = Rejected ''Request timed out''"

text \<open>
  A feed with one event in progress and two competitors, one of them cut, and variants
  of it: the tournament finished, a scheduled event before the live one, a competitor
  whose status is a number, competitors that are no list, a null entry in the events.
\<close>

definition competitorA :: jsval where
  "competitorA = JObj [(''athlete'', JObj [(''displayName'', JStr ''A. Player'')]),
                       (''score'', JStr ''0''), (''sortOrder'', JNum ''1''),
                       (''linescores'', JArr [JObj [(''linescores'', JArr [JObj [], JObj [], JObj []])]])]"

definition competitorB :: jsval where
  "competitorB = JObj [(''athlete'', JObj [(''displayName'', JStr ''B. Player'')]),
                       (''score'', JStr ''-2''), (''status'', JStr ''CUT''), (''sortOrder'', JNum ''2'')]"

definition eventWith :: "string \<Rightarrow> jsval \<Rightarrow> jsval" where
  "eventWith statusName cs = JObj [(''name'', JStr ''The Open''),
      (''competitions'', JArr [JObj [
         (''status'', JObj [(''period'', JNum ''2''),
                            (''type'', JObj [(''name'', JStr statusName),
                                             (''shortDetail'', JStr ''Round 2'')])]),
         (''competitors'', cs)]])]"

definition samplePayload :: jsval where
  "samplePayload = JObj [(''events'', JArr [eventWith ''STATUS_IN_PROGRESS'' (JArr [competitorA, competitorB])])]"

definition finalPayload :: jsval where
  "finalPayload = JObj [(''events'', JArr [eventWith ''STATUS_FINAL'' (JArr [competitorA, competitorB])])]"

definition scheduledEvent :: jsval where
  "scheduledEvent = eventWith ''STATUS_SCHEDULED'' (JArr [competitorA])"

definition liveEvent :: jsval where
  "liveEvent = eventWith ''STATUS_IN_PROGRESS'' (JArr [competitorA, competitorB])"

definition numericStatusPayload :: jsval where
  "numericStatusPayload = JObj [(''events'', JArr [eventWith ''STATUS_IN_PROGRESS''
      (JArr [JObj [(''athlete'', JObj [(''displayName'', JStr ''C. Player'')]),
                   (''score'', JStr ''-1''), (''status'', JNum ''5'')]])])]"

definition competitorsObjectPayload :: jsval where
  "competitorsObjectPayload =
     JObj [(''events'', JArr [eventWith ''STATUS_IN_PROGRESS'' (JObj [])])]"

definition nullEventPayload :: jsval where
  "nullEventPayload = JObj [(''events'', JArr [JNull, liveEvent])]"

definition sampleSnapshot :: snapshot where
  "sampleSnapshot = Ok (JStr ''The Open'') ''Round 2'' (JStr ''Round 2'')
    [\<lparr>name = JStr ''A. Player'', score = ''E'', thru = ''3'', position = ''1''\<rparr>,
     \<lparr>name = JStr ''B. Player'', score = ''-2'', thru = ''--'', position = ''MC''\<rparr>]
    ''2026-01-01T00:00:00.000Z''"

definition finalSnapshot :: snapshot where
  "finalSnapshot = Ok (JStr ''The Open'') ''Round 2'' (JStr ''Round 2'')
    [\<lparr>name = JStr ''A. Player'', score = ''E'', thru = ''F'', position = ''1''\<rparr>,
     \<lparr>name = JStr ''B. Player'', score = ''-2'', thru = ''F'', position = ''MC''\<rparr>]
    ''2026-01-01T00:00:00.000Z''"

definition twoEventsPayload :: jsval where
  "twoEventsPayload = JObj [(''events'', JArr [scheduledEvent, liveEvent])]"

text \<open>
  A feed in progress whose only competitor has one round, with the number 5 where the
  line scores of the round should be.
\<close>

definition oddRoundCompetitor :: jsval where
  "oddRoundCompetitor = JObj [(''athlete'', JObj [(''displayName'', JStr ''C. Player'')]),
                              (''linescores'', JArr [JObj [(''linescores'', JNum ''5'')]])]"

definition oddRoundPayload :: jsval where
  "oddRoundPayload =
     JObj [(''events'', JArr [eventWith ''STATUS_IN_PROGRESS'' (JArr [oddRoundCompetitor])])]"

text \<open>A feed in progress whose second competitor has no sort order.\<close>

definition unsortedPayload :: jsval where
  "unsortedPayload =
     JObj [(''events'',
            JArr [eventWith ''STATUS_IN_PROGRESS'' (JArr [competitorB, oddRoundCompetitor])])]"

definition oddRoundSnapshot :: snapshot where
  "oddRoundSnapshot = Ok (JStr ''The Open'') ''Round 2'' (JStr ''Round 2'')
    [\<lparr>name = JStr ''C. Player'', score = ''E'', thru = ''undefined'', position = ''1''\<rparr>]
    ''2026-01-01T00:00:00.000Z''"

section \<open>Properties of the cache\<close>

lemma andThen_Inr [simp]: "andThen (Inr x) f = f x"
  by (simp add: andThen_def)

lemma andThen_Inl [simp]: "andThen (Inl x) f = Inl x"
  by (simp add: andThen_def)

lemma resume_fail:
  assumes "refreshError e = Some x"
  shows "resumeCall e now (fetched e) st = onError x (st\<lparr>inflight := inflight st - 1\<rparr>)"
  using assms
  by (auto simp: refreshError_def resumeCall_def Let_def split: fetch_result.splits sum.splits)

text \<open>
  A refresh that succeeds stores the snapshot and returns it, also when evaluating the
  log line throws: the \<^verbatim>\<open>catch\<close> block then finds the snapshot just stored.
\<close>

lemma resume_ok:
  assumes "parseLeaderboard e raw = Inr snap"
  shows "resumeCall e now (Resolved raw) st =
    (snap, st\<lparr>inflight := inflight st - 1, cache := Some snap, cacheTime := now\<rparr>)"
  using assms by (auto simp: resumeCall_def Let_def onError_def split: sum.splits)

lemma resume_fetches [simp]: "fetches (snd (resumeCall e now r st)) = fetches st"
  by (simp add: resumeCall_def Let_def onError_def
      split: fetch_result.splits sum.splits option.splits)

lemma resume_inflight [simp]: "inflight (snd (resumeCall e now r st)) = inflight st - 1"
  by (simp add: resumeCall_def Let_def onError_def
      split: fetch_result.splits sum.splits option.splits)

lemma gl_hit:
  "cache st = Some c \<Longrightarrow> dateNow e - cacheTime st < CACHE_TTL \<Longrightarrow>
   getLeaderboard e st = (c, st)"
  by (simp add: getLeaderboard_def beginCall_def Let_def)

lemma begin_miss:
  "cache st = None \<or> CACHE_TTL \<le> dateNow e - cacheTime st \<Longrightarrow>
   beginCall e st =
     (Awaiting (dateNow e), st\<lparr>fetches := fetches st + 1, inflight := inflight st + 1\<rparr>)"
  by (auto simp add: beginCall_def Let_def split: option.splits)

lemma gl_miss:
  "cache st = None \<or> CACHE_TTL \<le> dateNow e - cacheTime st \<Longrightarrow>
   getLeaderboard e st =
     resumeCall e (dateNow e) (fetched e)
       (st\<lparr>fetches := fetches st + 1, inflight := inflight st + 1\<rparr>)"
  by (simp add: getLeaderboard_def begin_miss)

lemma gl_miss_ok:
  assumes "cache st = None \<or> CACHE_TTL \<le> dateNow e - cacheTime st"
    and "fetched e = Resolved raw" and "parseLeaderboard e raw = Inr snap"
  shows "getLeaderboard e st =
     (snap, st\<lparr>fetches := fetches st + 1, cache := Some snap, cacheTime := dateNow e\<rparr>)"
  by (simp add: gl_miss[OF assms(1)] assms(2) resume_ok[OF assms(3)])

lemma gl_inflight [simp]: "inflight (snd (getLeaderboard e st)) = inflight st"
  by (simp add: getLeaderboard_def beginCall_def Let_def split: option.splits)

lemma gl_fetches_le: "fetches (snd (getLeaderboard e st)) \<le> fetches st + 1"
  by (simp add: getLeaderboard_def beginCall_def Let_def split: option.splits)

lemma runSequential_inflight [simp]: "inflight (runSequential es st) = inflight st"
  by (induction es arbitrary: st) simp_all

lemma begin_inflight_le: "inflight (snd (beginCall e st)) \<le> inflight st + 1"
  by (simp add: beginCall_def Let_def split: option.splits)

lemma sample_parse: "parseLeaderboard (envAt t r) samplePayload = Inr sampleSnapshot"
  unfolding envAt_def by code_simp

text \<open>
  C1, as the claim states it, fails: two retrievals one second apart send two requests
  when the first request fails (here it times out on an empty cache), because a failed
  refresh stores nothing. And two retrievals one second apart send no request at all
  when the first of them already finds a snapshot younger than 60 seconds (here one
  stored at time 0, by the one request sent so far).
\<close>

theorem C1_two_fetches_within_ttl:
  "dateNow (envAt 1000 timedOut) - dateNow (envAt 0 timedOut) < CACHE_TTL \<and>
   fetches (snd (getLeaderboard (envAt 1000 timedOut)
                  (snd (getLeaderboard (envAt 0 timedOut) initial_state)))) = 2 \<and>
   dateNow (envAt 2000 timedOut) - dateNow (envAt 1000 timedOut) < CACHE_TTL \<and>
   fetches (snd (getLeaderboard (envAt 2000 timedOut)
                  (snd (getLeaderboard (envAt 1000 timedOut)
                     \<lparr>cache = Some NoTournament, cacheTime = 0, fetches = 1, inflight = 0\<rparr>)))) = 1"
  by (simp add: envAt_def timedOut_def initial_state_def getLeaderboard_def beginCall_def
      resumeCall_def onError_def CACHE_TTL_def Let_def)

text \<open>
  C1, amended. A call that finds a cached snapshot younger than 60 seconds returns it
  before it reaches the \<^verbatim>\<open>await\<close>, leaves the state as it is and sends no request. Two
  calls less than 60 seconds apart, with no intervening change (the second call begins
  in exactly the state in which the first call ended, and no other call runs between
  the two halves of the first), the first of which finds the cache absent or 60 seconds
  old or older and refreshes it successfully, return the same snapshot and send exactly
  one request together. A call that finds the cache absent or 60 seconds old or older
  sends a request.
\<close>

theorem C1_cache_ttl:
  "(cache st = Some c \<and> dateNow e - cacheTime st < CACHE_TTL \<longrightarrow>
      beginCall e st = (Done c, st) \<and> getLeaderboard e st = (c, st))
   \<and> ((cache st = None \<or> CACHE_TTL \<le> dateNow e1 - cacheTime st) \<and>
       fetched e1 = Resolved raw \<and> parseLeaderboard e1 raw = Inr snap \<and>
       dateNow e2 - dateNow e1 < CACHE_TTL \<longrightarrow>
         fst (getLeaderboard e1 st) = snap \<and>
         getLeaderboard e2 (snd (getLeaderboard e1 st)) = (snap, snd (getLeaderboard e1 st)) \<and>
         fetches (snd (getLeaderboard e2 (snd (getLeaderboard e1 st)))) = fetches st + 1)
   \<and> ((cache st = None \<or> CACHE_TTL \<le> dateNow e - cacheTime st) \<longrightarrow>
         beginCall e st =
           (Awaiting (dateNow e), st\<lparr>fetches := fetches st + 1, inflight := inflight st + 1\<rparr>)
         \<and> fetches (snd (getLeaderboard e st)) = fetches st + 1)"
proof (intro conjI impI)
  assume h: "cache st = Some c \<and> dateNow e - cacheTime st < CACHE_TTL"
  then show "getLeaderboard e st = (c, st)" by (simp add: gl_hit)
  from h show "beginCall e st = (Done c, st)" by (simp add: beginCall_def Let_def)
next
  assume a: "(cache st = None \<or> CACHE_TTL \<le> dateNow e1 - cacheTime st) \<and>
       fetched e1 = Resolved raw \<and> parseLeaderboard e1 raw = Inr snap \<and>
       dateNow e2 - dateNow e1 < CACHE_TTL"
  then have first: "getLeaderboard e1 st =
     (snap, st\<lparr>fetches := fetches st + 1, cache := Some snap, cacheTime := dateNow e1\<rparr>)"
    by (simp add: gl_miss_ok)
  show "fst (getLeaderboard e1 st) = snap" by (simp add: first)
  show second:
    "getLeaderboard e2 (snd (getLeaderboard e1 st)) = (snap, snd (getLeaderboard e1 st))"
    using a by (simp add: first gl_hit)
  show "fetches (snd (getLeaderboard e2 (snd (getLeaderboard e1 st)))) = fetches st + 1"
    by (simp add: second) (simp add: first)
next
  assume h: "cache st = None \<or> CACHE_TTL \<le> dateNow e - cacheTime st"
  then show "fetches (snd (getLeaderboard e st)) = fetches st + 1"
    by (simp add: gl_miss)
  from h show "beginCall e st =
      (Awaiting (dateNow e), st\<lparr>fetches := fetches st + 1, inflight := inflight st + 1\<rparr>)"
    by (rule begin_miss)
qed

theorem C1_cache_ttl_witness:
  "getLeaderboard (envAt 59999 timedOut)
      \<lparr>cache = Some NoTournament, cacheTime = 0, fetches = 1, inflight = 0\<rparr>
    = (NoTournament, \<lparr>cache = Some NoTournament, cacheTime = 0, fetches = 1, inflight = 0\<rparr>)
   \<and> fst (getLeaderboard (envAt 0 (Resolved samplePayload)) initial_state) = sampleSnapshot
   \<and> fetches (snd (getLeaderboard (envAt 59999 timedOut)
        (snd (getLeaderboard (envAt 0 (Resolved samplePayload)) initial_state)))) = 1
   \<and> fetches (snd (getLeaderboard (envAt 60000 timedOut)
        \<lparr>cache = Some NoTournament, cacheTime = 0, fetches = 1, inflight = 0\<rparr>)) = 2"
proof -
  let ?st = "\<lparr>cache = Some NoTournament, cacheTime = 0, fetches = 1, inflight = 0\<rparr>"
  have a: "cache ?st = Some NoTournament \<and> dateNow (envAt 59999 timedOut) - cacheTime ?st < CACHE_TTL"
    by (simp add: envAt_def CACHE_TTL_def)
  have b: "(cache initial_state = None
        \<or> CACHE_TTL \<le> dateNow (envAt 0 (Resolved samplePayload)) - cacheTime initial_state)
     \<and> fetched (envAt 0 (Resolved samplePayload)) = Resolved samplePayload
     \<and> parseLeaderboard (envAt 0 (Resolved samplePayload)) samplePayload = Inr sampleSnapshot
     \<and> dateNow (envAt 59999 timedOut) - dateNow (envAt 0 (Resolved samplePayload)) < CACHE_TTL"
    by (simp add: sample_parse) (simp add: envAt_def CACHE_TTL_def initial_state_def)
  have c: "cache ?st = None \<or> CACHE_TTL \<le> dateNow (envAt 60000 timedOut) - cacheTime ?st"
    by (simp add: envAt_def CACHE_TTL_def)
  have f: "fetches initial_state = 0" by (simp add: initial_state_def)
  from C1_cache_ttl [where st = ?st and c = NoTournament and e = "envAt 59999 timedOut"]
    C1_cache_ttl [where st = initial_state and ?e1.0 = "envAt 0 (Resolved samplePayload)"
      and raw = samplePayload and snap = sampleSnapshot and ?e2.0 = "envAt 59999 timedOut"]
    C1_cache_ttl [where st = ?st and e = "envAt 60000 timedOut"]
    a b c f
  show ?thesis by auto
qed

text \<open>
  C2. When the refresh fails and a snapshot is cached, the call returns that snapshot and
  changes neither the cached snapshot nor its time; this holds for the second half of a
  call whatever the age of the cache, and for a whole call that found the cache 60
  seconds old or older. The state it leaves still holds the old time, so a later call
  past the 60 seconds sends a request again.
\<close>

theorem C2_stale_on_error:
  assumes "cache st = Some c" and "refreshError e = Some x"
  shows "resumeCall e now (fetched e) st = (c, st\<lparr>inflight := inflight st - 1\<rparr>)
       \<and> (CACHE_TTL \<le> dateNow e - cacheTime st \<longrightarrow>
            getLeaderboard e st = (c, st\<lparr>fetches := fetches st + 1\<rparr>)
            \<and> cache (snd (getLeaderboard e st)) = Some c
            \<and> cacheTime (snd (getLeaderboard e st)) = cacheTime st)
       \<and> (CACHE_TTL \<le> dateNow e - cacheTime st \<and> CACHE_TTL \<le> dateNow e' - cacheTime st \<longrightarrow>
            fetches (snd (getLeaderboard e' (snd (getLeaderboard e st)))) = fetches st + 2)"
proof -
  have r: "resumeCall e now (fetched e) st' = onError x (st'\<lparr>inflight := inflight st' - 1\<rparr>)"
    for now st'
    using assms(2) by (rule resume_fail)
  have 1: "resumeCall e now (fetched e) st = (c, st\<lparr>inflight := inflight st - 1\<rparr>)"
    using assms(1) by (simp add: r onError_def)
  have 2: "getLeaderboard e st = (c, st\<lparr>fetches := fetches st + 1\<rparr>)"
    if "CACHE_TTL \<le> dateNow e - cacheTime st"
    using that assms(1) by (simp add: gl_miss r onError_def)
  have 3: "fetches (snd (getLeaderboard e' (snd (getLeaderboard e st)))) = fetches st + 2"
    if "CACHE_TTL \<le> dateNow e - cacheTime st" "CACHE_TTL \<le> dateNow e' - cacheTime st"
  proof -
    have g: "getLeaderboard e st = (c, st\<lparr>fetches := fetches st + 1\<rparr>)"
      using that(1) by (rule 2)
    show ?thesis
      unfolding g using that(2) assms(1) by (simp add: gl_miss)
  qed
  show ?thesis using 1 2 3 assms(1) by simp
qed

theorem C2_stale_on_error_witness:
  "getLeaderboard (envAt 70000 timedOut)
     \<lparr>cache = Some NoTournament, cacheTime = 0, fetches = 1, inflight = 0\<rparr>
   = (NoTournament, \<lparr>cache = Some NoTournament, cacheTime = 0, fetches = 2, inflight = 0\<rparr>)
   \<and> fetches (snd (getLeaderboard (envAt 130000 timedOut)
        (snd (getLeaderboard (envAt 70000 timedOut)
          \<lparr>cache = Some NoTournament, cacheTime = 0, fetches = 1, inflight = 0\<rparr>)))) = 3"
proof -
  let ?st = "\<lparr>cache = Some NoTournament, cacheTime = 0, fetches = 1, inflight = 0\<rparr>"
  have a: "cache ?st = Some NoTournament"
    by simp
  have b: "refreshError (envAt 70000 timedOut) = Some (FetchError ''Request timed out'')"
    by (simp add: refreshError_def envAt_def timedOut_def)
  have c: "CACHE_TTL \<le> dateNow (envAt 70000 timedOut) - cacheTime ?st"
    "CACHE_TTL \<le> dateNow (envAt 130000 timedOut) - cacheTime ?st"
    by (simp_all add: CACHE_TTL_def envAt_def)
  from C2_stale_on_error [OF a b, of 0 "envAt 130000 timedOut"] c show ?thesis
    by auto
qed

text \<open>
  C3. When the refresh fails and nothing is cached, the call returns
  \<^verbatim>\<open>{status: 'error', message: ...}\<close> with the message of the failure, the cache stays
  empty, and the next call, at whatever time, sends a request again.
\<close>

theorem C3_error_not_cached:
  assumes "cache st = None" and "refreshError e = Some x"
  shows "getLeaderboard e st = (Error x, st\<lparr>fetches := fetches st + 1\<rparr>)
       \<and> cache (snd (getLeaderboard e st)) = None
       \<and> fetches (snd (getLeaderboard e' (snd (getLeaderboard e st)))) = fetches st + 2"
proof -
  have r: "resumeCall e now (fetched e) st' = onError x (st'\<lparr>inflight := inflight st' - 1\<rparr>)"
    for now st'
    using assms(2) by (rule resume_fail)
  have 1: "getLeaderboard e st = (Error x, st\<lparr>fetches := fetches st + 1\<rparr>)"
    using assms(1) by (simp add: gl_miss r onError_def)
  have "fetches (snd (getLeaderboard e' (snd (getLeaderboard e st)))) = fetches st + 2"
    unfolding 1 using assms(1) by (simp add: gl_miss)
  with 1 assms(1) show ?thesis by simp
qed

theorem C3_error_not_cached_witness:
  "getLeaderboard (envAt 0 timedOut) initial_state
   = (Error (FetchError ''Request timed out''),
      \<lparr>cache = None, cacheTime = 0, fetches = 1, inflight = 0\<rparr>)
   \<and> fetches (snd (getLeaderboard (envAt 5 timedOut)
        (snd (getLeaderboard (envAt 0 timedOut) initial_state)))) = 2"
proof -
  have a: "cache initial_state = None"
    by (simp add: initial_state_def)
  have b: "refreshError (envAt 0 timedOut) = Some (FetchError ''Request timed out'')"
    by (simp add: refreshError_def envAt_def timedOut_def)
  from C3_error_not_cached [OF a b, of "envAt 5 timedOut"] show ?thesis
    by (auto simp add: initial_state_def)
qed

text \<open>
  C5, as the claim states it, fails: a second call that begins while the first is still
  waiting for its response finds the cache still empty and sends a request of its own,
  so two requests are in flight.
\<close>

theorem C5_two_in_flight:
  "inflight (snd (beginCall (envAt 1 timedOut)
      (snd (beginCall (envAt 0 timedOut) initial_state)))) = 2"
  by (simp add: envAt_def initial_state_def beginCall_def Let_def)

text \<open>
  C5, amended. \<^verbatim>\<open>getLeaderboard\<close> has no guard: a call that finds the cache absent or 60
  seconds old or older sends a request whatever the number of requests in flight. A
  call that nothing interrupts sends at most one request and leaves the number of
  requests in flight as it found it; so calls that do not overlap leave no request in
  flight, and among them at most one request is in flight at a time.
\<close>

theorem C5_no_guard:
  "((cache st = None \<or> CACHE_TTL \<le> dateNow e - cacheTime st) \<longrightarrow>
      inflight (snd (beginCall e st)) = inflight st + 1)
   \<and> fetches (snd (getLeaderboard e st)) \<le> fetches st + 1
   \<and> inflight (snd (getLeaderboard e st)) = inflight st
   \<and> inflight (runSequential es initial_state) = 0
   \<and> inflight (snd (beginCall e (runSequential es initial_state))) \<le> 1"
proof -
  have 0: "inflight (runSequential es initial_state) = 0"
    by (simp add: initial_state_def)
  have "inflight (snd (beginCall e (runSequential es initial_state))) \<le> 0 + 1"
    using begin_inflight_le [of e "runSequential es initial_state"] by (simp only: 0)
  with 0 gl_fetches_le [of e st] show ?thesis by (simp add: begin_miss)
qed

theorem C5_no_guard_witness:
  "inflight (snd (beginCall (envAt 0 timedOut) initial_state)) = 1
   \<and> inflight (runSequential [envAt 0 timedOut, envAt 1 timedOut] initial_state) = 0
   \<and> inflight (snd (beginCall (envAt 2 timedOut)
        (runSequential [envAt 0 timedOut, envAt 1 timedOut] initial_state))) \<le> 1"
proof -
  have a: "cache initial_state = None" "inflight initial_state = 0"
    by (simp_all add: initial_state_def)
  from C5_no_guard [where st = initial_state and e = "envAt 0 timedOut"
      and es = "[envAt 0 timedOut, envAt 1 timedOut]"]
    C5_no_guard [where st = initial_state and e = "envAt 2 timedOut"
      and es = "[envAt 0 timedOut, envAt 1 timedOut]"] a
  show ?thesis by auto
qed

section \<open>Properties of the request handler\<close>

text \<open>
  C10, as the claim states it, fails: \<^verbatim>\<open>/health\<close> differs from \<^verbatim>\<open>/\<close> and
  \<^verbatim>\<open>/leaderboard\<close> and is answered with 200, not 404.
\<close>

theorem C10_health_is_200:
  "fst (handler (envAt 0 timedOut) \<lparr>reqMethod = ''GET'', url = ''/health''\<rparr> initial_state)
   = \<lparr>statusCode = 200, body = HealthJson\<rparr>"
  by (simp add: handler_def)

text \<open>
  C10, amended. A request whose method is not \<^verbatim>\<open>OPTIONS\<close> is routed by its whole URL
  string alone: \<^verbatim>\<open>/\<close> and \<^verbatim>\<open>/leaderboard\<close> are answered with 200 and the snapshot that
  \<^verbatim>\<open>getLeaderboard\<close> returns, \<^verbatim>\<open>/health\<close> with 200 and the health body, and every other
  URL with 404 and \<^verbatim>\<open>{"error": "Not found"}\<close>, the state unchanged.
\<close>

theorem C10_routing:
  assumes "reqMethod req \<noteq> ''OPTIONS''"
  shows "(url req = ''/'' \<or> url req = ''/leaderboard'' \<longrightarrow>
            handler e req st =
              (\<lparr>statusCode = 200, body = LeaderboardJson (fst (getLeaderboard e st))\<rparr>,
               snd (getLeaderboard e st)))
       \<and> (url req = ''/health'' \<longrightarrow>
            handler e req st = (\<lparr>statusCode = 200, body = HealthJson\<rparr>, st))
       \<and> (url req \<noteq> ''/'' \<and> url req \<noteq> ''/leaderboard'' \<and> url req \<noteq> ''/health'' \<longrightarrow>
            handler e req st = (\<lparr>statusCode = 404, body = NotFoundJson\<rparr>, st))"
  using assms by (auto simp add: handler_def split: prod.splits)

theorem C10_routing_witness:
  "handler (envAt 0 timedOut) \<lparr>reqMethod = ''POST'', url = ''/''\<rparr> initial_state
     = (\<lparr>statusCode = 200, body = LeaderboardJson (Error (FetchError ''Request timed out''))\<rparr>,
        \<lparr>cache = None, cacheTime = 0, fetches = 1, inflight = 0\<rparr>)
   \<and> handler (envAt 0 timedOut) \<lparr>reqMethod = ''GET'', url = ''/leaderboard?x=1''\<rparr> initial_state
     = (\<lparr>statusCode = 404, body = NotFoundJson\<rparr>, initial_state)"
  using C10_routing [of "\<lparr>reqMethod = ''POST'', url = ''/''\<rparr>" "envAt 0 timedOut" initial_state]
    C10_routing [of "\<lparr>reqMethod = ''GET'', url = ''/leaderboard?x=1''\<rparr>" "envAt 0 timedOut"
      initial_state]
  by (simp add: envAt_def timedOut_def initial_state_def getLeaderboard_def beginCall_def
      resumeCall_def onError_def Let_def)

section \<open>Properties of the normalizer\<close>

subsection \<open>Reads that do not throw\<close>

lemma getField_field: "\<not> nullish v \<Longrightarrow> getField v k = Inr (field v k)"
  by (cases v) (simp_all add: nullish_def field_def)

lemma truthy_not_nullish: "truthy v \<Longrightarrow> \<not> nullish v"
  by (auto simp: nullish_def)

lemma field_falsy: "\<not> truthy v \<Longrightarrow> field v k = Undefined"
  by (cases v) (simp_all add: field_def)

lemma andField_field: "andField v k = Inr (if truthy v then field v k else v)"
  by (simp add: andField_def getField_field truthy_not_nullish)

lemma getIndex0_firstOf: "\<not> nullish v \<Longrightarrow> getIndex0 v = Inr (firstOf v)"
  by (cases v) (simp_all add: nullish_def firstOf_def)

lemma firstOf_falsy: "\<not> truthy v \<Longrightarrow> firstOf v = Undefined"
  by (cases v) (simp_all add: firstOf_def)

lemma primaryCompetition_eq:
  "\<not> nullish ev \<Longrightarrow>
   primaryCompetition ev =
     Inr (if truthy (field ev ''competitions'') then spec_primary ev else field ev ''competitions'')"
  by (simp add: primaryCompetition_def getField_field getIndex0_firstOf truthy_not_nullish spec_primary_def)

lemma primaryCompetition_truthy:
  assumes "\<not> nullish ev"
  shows "\<exists>c. primaryCompetition ev = Inr c \<and> truthy c = truthy (spec_primary ev)
           \<and> (truthy c \<longrightarrow> c = spec_primary ev)"
  using assms by (simp add: primaryCompetition_eq) (simp add: spec_primary_def firstOf_falsy)

lemma spec_primary_falsy: "\<not> truthy ev \<Longrightarrow> spec_primary ev = Undefined"
  by (simp add: spec_primary_def field_falsy firstOf_def)

lemma statusTypeField_eq:
  "truthy c \<Longrightarrow>
   statusTypeField c k = Inr (js_or (field (field (field c ''status'') ''type'') k) (JStr ''''))"
  by (auto simp add: statusTypeField_def getField_field truthy_not_nullish andField_field js_or_def field_falsy)

subsection \<open>The selection of the active event\<close>

lemma isActiveEvent_eq:
  assumes "\<not> nullish ev"
  shows "isActiveEvent ev = Inr (spec_isLive ev)"
proof -
  obtain c where c: "primaryCompetition ev = Inr c" "truthy c = truthy (spec_primary ev)"
    "truthy c \<longrightarrow> c = spec_primary ev"
    using primaryCompetition_truthy[OF assms] by blast
  show ?thesis
  proof (cases "truthy c")
    case True
    with c show ?thesis
      by (auto simp add: isActiveEvent_def statusTypeField_eq spec_isLive_def spec_statusName_def js_or_def)
  next
    case False
    with c have "field (spec_primary ev) ''status'' = Undefined" by (simp add: field_falsy)
    with False c show ?thesis
      by (simp add: isActiveEvent_def spec_isLive_def spec_statusName_def field_def)
  qed
qed

lemma isActiveEvent_nullish: "nullish ev \<Longrightarrow> isActiveEvent ev = Inl TypeError"
  by (auto simp: nullish_def isActiveEvent_def primaryCompetition_def)

lemma findFirst_returns:
  "findFirst isActiveEvent es = Inr v \<Longrightarrow>
   v = (case find spec_isLive es of Some ev \<Rightarrow> ev | None \<Rightarrow> Undefined)"
proof (induction es)
  case Nil
  then show ?case by simp
next
  case (Cons a es)
  show ?case
  proof (cases "nullish a")
    case True
    with Cons.prems show ?thesis by (simp add: isActiveEvent_nullish)
  next
    case False
    with Cons show ?thesis by (simp add: isActiveEvent_eq split: if_splits)
  qed
qed

lemma findFirst_total:
  "\<forall>ev\<in>set es. \<not> nullish ev \<Longrightarrow>
   findFirst isActiveEvent es = Inr (case find spec_isLive es of Some ev \<Rightarrow> ev | None \<Rightarrow> Undefined)"
  by (induction es) (simp_all add: isActiveEvent_eq)

lemma spec_isLive_truthy: "spec_isLive ev \<Longrightarrow> truthy ev"
  by (cases ev) (auto simp: spec_isLive_def spec_statusName_def spec_primary_def field_def firstOf_def own_def)

lemma find_live_truthy: "find spec_isLive es = Some ev \<Longrightarrow> truthy ev"
  by (auto simp: find_Some_iff spec_isLive_truthy)

lemma selectActiveEvent_returns:
  assumes "selectActiveEvent (JArr es) = Inr v"
  shows "v = spec_activeEvent es"
proof -
  from assms obtain found where f: "findFirst isActiveEvent es = Inr found"
    and v: "(if truthy found then Inr found else getIndex0 (JArr es)) = Inr v"
    by (auto simp add: selectActiveEvent_def andThen_def split: sum.splits)
  from findFirst_returns[OF f]
  have found: "found = (case find spec_isLive es of Some ev \<Rightarrow> ev | None \<Rightarrow> Undefined)" .
  show ?thesis
  proof (cases "find spec_isLive es")
    case None
    with found v show ?thesis by (simp add: spec_activeEvent_def)
  next
    case (Some ev)
    with found v find_live_truthy[OF Some] show ?thesis by (simp add: spec_activeEvent_def)
  qed
qed

lemma selectActiveEvent_total:
  "\<forall>ev\<in>set es. \<not> nullish ev \<Longrightarrow> selectActiveEvent (JArr es) = Inr (spec_activeEvent es)"
  by (auto simp add: selectActiveEvent_def findFirst_total spec_activeEvent_def find_live_truthy
      split: option.splits list.splits)

lemma find_in: "find P xs = Some x \<Longrightarrow> x \<in> set xs"
  by (induction xs) (auto split: if_splits)

lemma spec_activeEvent_Nil: "spec_activeEvent [] = Undefined"
  by (simp add: spec_activeEvent_def)

lemma spec_activeEvent_in: "spec_activeEvent es \<in> set es \<or> spec_activeEvent es = Undefined"
  by (auto simp add: spec_activeEvent_def split: option.splits list.splits dest: find_in)

subsection \<open>The two halves of the normalizer\<close>

lemma events_listed:
  assumes "listOrAbsent P (field d ''events'')"
  shows "js_or (field d ''events'') (JArr []) = JArr (spec_events d)"
  using assms by (cases "field d ''events''") (simp_all add: listOrAbsent_def js_or_def spec_events_def)

lemma after_selection:
  "(if \<not> truthy a then Inr NoTournament
    else andThen (primaryCompetition a) (\<lambda>compet.
           if \<not> truthy compet then Inr NoTournament else leaderboardOf e a compet))
   = (if truthy (spec_primary a) then leaderboardOf e a (spec_primary a) else Inr NoTournament)"
proof (cases "truthy a")
  case False
  then show ?thesis by (simp add: spec_primary_falsy)
next
  case True
  then have "\<not> nullish a" by (rule truthy_not_nullish)
  from primaryCompetition_truthy[OF this] obtain c where
    "primaryCompetition a = Inr c" "truthy c = truthy (spec_primary a)"
    "truthy c \<longrightarrow> c = spec_primary a" by blast
  with True show ?thesis by auto
qed

lemma parse_eq:
  assumes "\<not> nullish d" and "listOrAbsent (\<lambda>ev. \<not> nullish ev) (field d ''events'')"
  shows "parseLeaderboard e d =
    (if truthy (spec_primary (spec_activeEvent (spec_events d)))
     then leaderboardOf e (spec_activeEvent (spec_events d))
            (spec_primary (spec_activeEvent (spec_events d)))
     else Inr NoTournament)"
proof -
  have "\<forall>ev\<in>set (spec_events d). \<not> nullish ev"
    using assms(2) by (cases "field d ''events''") (simp_all add: listOrAbsent_def spec_events_def list_all_iff)
  then have sel: "selectActiveEvent (JArr (spec_events d)) = Inr (spec_activeEvent (spec_events d))"
    by (rule selectActiveEvent_total)
  show ?thesis
    unfolding parseLeaderboard_def Let_def
    by (simp only: getField_field[OF assms(1)] andThen_Inr events_listed[OF assms(2)] sel after_selection)
qed

lemma callFind_returns: "callFind f v = Inr r \<Longrightarrow> \<exists>es. v = JArr es"
  by (cases v) simp_all

lemma parse_returns:
  assumes "parseLeaderboard e d = Inr s"
  shows "s = NoTournament
       \<or> (truthy (spec_primary (spec_activeEvent (spec_events d)))
          \<and> leaderboardOf e (spec_activeEvent (spec_events d))
               (spec_primary (spec_activeEvent (spec_events d))) = Inr s)"
proof -
  from assms have nn: "\<not> nullish d"
    by (auto simp add: parseLeaderboard_def nullish_def)
  let ?evs = "js_or (field d ''events'') (JArr [])"
  from assms obtain a where sel: "selectActiveEvent ?evs = Inr a"
    and rest: "(if \<not> truthy a then Inr NoTournament
      else andThen (primaryCompetition a) (\<lambda>compet.
           if \<not> truthy compet then Inr NoTournament else leaderboardOf e a compet)) = Inr s"
    by (auto simp add: parseLeaderboard_def getField_field[OF nn] Let_def andThen_def split: sum.splits)
  from sel obtain es where es: "?evs = JArr es"
    by (auto simp add: selectActiveEvent_def andThen_def split: sum.splits dest: callFind_returns)
  then have "es = spec_events d"
    by (cases "field d ''events''") (auto simp add: js_or_def spec_events_def split: if_splits)
  with sel es have a: "a = spec_activeEvent (spec_events d)"
    by (simp add: selectActiveEvent_returns)
  from rest show ?thesis
    unfolding after_selection a by (auto split: if_splits)
qed

lemma leaderboardOf_invalid:
  assumes "truthy compet"
    and "field (field (field compet ''status'') ''type'') ''name'' \<notin> set validStatuses"
  shows "leaderboardOf e ev compet = Inr NoTournament"
proof -
  have "js_or (field (field (field compet ''status'') ''type'') ''name'') (JStr []) \<notin> set validStatuses"
    using assms(2) by (auto simp add: js_or_def validStatuses_def)
  then show ?thesis
    using assms(1) by (simp add: leaderboardOf_def statusTypeField_eq)
qed

lemma leaderboardOf_env:
  "leaderboardOf (e\<lparr>dateNow := t', fetched := r'\<rparr>) a c = leaderboardOf e a c"
  by (simp add: leaderboardOf_def Let_def cong: if_cong)

lemma parse_env: "parseLeaderboard (e\<lparr>dateNow := t', fetched := r'\<rparr>) d = parseLeaderboard e d"
  by (simp add: parseLeaderboard_def leaderboardOf_env Let_def cong: if_cong)

text \<open>
  C9, as the claim states it, fails: on the events list \<open>[null, live]\<close> the first event
  whose primary competition is in progress is the second one, but the callback of
  \<^verbatim>\<open>find\<close> reads \<^verbatim>\<open>e.competitions\<close> of the null entry first and the normalizer throws.
\<close>

theorem C9_null_event_throws:
  "parseLeaderboard (envAt 0 timedOut) nullEventPayload = Inl TypeError
   \<and> spec_activeEvent (spec_events nullEventPayload) = liveEvent"
  by code_simp

text \<open>
  C9, amended. For every payload that is not null and whose events field is absent,
  falsy or a list without null entries: the event the normalizer selects is the first
  event of the list whose primary competition has the status name
  \<^verbatim>\<open>STATUS_IN_PROGRESS\<close> or \<^verbatim>\<open>STATUS_PLAY_COMPLETE\<close>, else the first event; the result is
  \<^verbatim>\<open>no_tournament\<close> when the list is empty or absent, when the selected event has no
  primary competition, and when the status name of that competition is none of the
  four valid ones; otherwise the result is the snapshot of the selected event and its
  primary competition.
\<close>

theorem C9_active_event:
  assumes "\<not> nullish d" and "listOrAbsent (\<lambda>ev. \<not> nullish ev) (field d ''events'')"
    and "a = spec_activeEvent (spec_events d)"
  shows "selectActiveEvent (js_or (field d ''events'') (JArr [])) = Inr a
    \<and> (spec_events d = [] \<or> \<not> truthy (spec_primary a) \<or> spec_statusName a \<notin> set validStatuses
         \<longrightarrow> parseLeaderboard e d = Inr NoTournament)
    \<and> (truthy (spec_primary a) \<longrightarrow> parseLeaderboard e d = leaderboardOf e a (spec_primary a))"
proof -
  have "\<forall>ev\<in>set (spec_events d). \<not> nullish ev"
    using assms(2)
    by (cases "field d ''events''") (simp_all add: listOrAbsent_def spec_events_def list_all_iff)
  then have sel: "selectActiveEvent (js_or (field d ''events'') (JArr [])) = Inr a"
    unfolding events_listed[OF assms(2)] assms(3) by (rule selectActiveEvent_total)
  have p: "parseLeaderboard e d =
    (if truthy (spec_primary a) then leaderboardOf e a (spec_primary a) else Inr NoTournament)"
    unfolding assms(3) using assms(1,2) by (rule parse_eq)
  have e1: "parseLeaderboard e d = Inr NoTournament" if "spec_events d = []"
    using that by (simp add: p assms(3) spec_activeEvent_Nil spec_primary_falsy)
  have e2: "parseLeaderboard e d = Inr NoTournament" if "\<not> truthy (spec_primary a)"
    using that by (simp add: p)
  have e3: "parseLeaderboard e d = Inr NoTournament" if "spec_statusName a \<notin> set validStatuses"
    using that by (simp add: p leaderboardOf_invalid spec_statusName_def)
  show ?thesis using sel p e1 e2 e3 by auto
qed

theorem C9_active_event_witness:
  "selectActiveEvent (JArr [scheduledEvent, liveEvent]) = Inr liveEvent
   \<and> parseLeaderboard (envAt 0 timedOut) twoEventsPayload = Inr sampleSnapshot
   \<and> parseLeaderboard (envAt 0 timedOut) (JObj [(''events'', JArr [])]) = Inr NoTournament
   \<and> parseLeaderboard (envAt 0 timedOut) (JObj []) = Inr NoTournament"
proof -
  have n: "\<not> nullish twoEventsPayload" "\<not> nullish (JObj [(''events'', JArr [])])"
    "\<not> nullish (JObj [])"
    by (simp_all add: nullish_def twoEventsPayload_def)
  have l: "listOrAbsent (\<lambda>ev. \<not> nullish ev) (field twoEventsPayload ''events'')"
    "listOrAbsent (\<lambda>ev. \<not> nullish ev) (field (JObj [(''events'', JArr [])]) ''events'')"
    "listOrAbsent (\<lambda>ev. \<not> nullish ev) (field (JObj []) ''events'')"
    by code_simp+
  have a: "liveEvent = spec_activeEvent (spec_events twoEventsPayload)"
    "Undefined = spec_activeEvent (spec_events (JObj [(''events'', JArr [])]))"
    "Undefined = spec_activeEvent (spec_events (JObj []))"
    by code_simp+
  have t: "truthy (spec_primary liveEvent)"
    by code_simp
  have j: "js_or (field twoEventsPayload ''events'') (JArr []) = JArr [scheduledEvent, liveEvent]"
    by (simp add: twoEventsPayload_def field_def own_def js_or_def)
  have u: "\<not> truthy (spec_primary Undefined)"
    by (simp add: spec_primary_def field_def firstOf_def)
  from C9_active_event [OF n(1) l(1) a(1), of "envAt 0 timedOut"] t
  have 1: "selectActiveEvent (JArr [scheduledEvent, liveEvent]) = Inr liveEvent"
    and 2: "parseLeaderboard (envAt 0 timedOut) twoEventsPayload
       = leaderboardOf (envAt 0 timedOut) liveEvent (spec_primary liveEvent)"
    unfolding j by blast+
  from C9_active_event [OF n(2) l(2) a(2), of "envAt 0 timedOut"] u
  have 3: "parseLeaderboard (envAt 0 timedOut) (JObj [(''events'', JArr [])]) = Inr NoTournament"
    by blast
  from C9_active_event [OF n(3) l(3) a(3), of "envAt 0 timedOut"] u
  have 4: "parseLeaderboard (envAt 0 timedOut) (JObj []) = Inr NoTournament"
    by blast
  have 5: "leaderboardOf (envAt 0 timedOut) liveEvent (spec_primary liveEvent) = Inr sampleSnapshot"
    by code_simp
  from 1 2 3 4 5 show ?thesis by simp
qed

subsection \<open>Where the normalizer does not throw\<close>

lemma stringableD: "stringable v \<Longrightarrow> \<exists>s. js_toString v = Inr s"
  by (simp add: stringable_def split: sum.splits)

lemma parsed_total:
  "\<exists>s. (if n = JNum ''NaN'' then Inr ''E''
        else if n = JNum ''0'' then Inr ''E''
        else if negative n then js_toString n
        else andThen (js_toString n) (\<lambda>s. Inr (''+'' @ s))) = Inr s"
  if "\<exists>x. n = JNum x"
  using that by auto

lemma js_parseInt_number: "js_parseInt big v = Inr n \<Longrightarrow> \<exists>x. n = JNum x"
  by (auto simp add: js_parseInt_def numberOf_def andThen_def split: sum.splits option.splits)

lemma scoreOf_total:
  assumes "\<not> nullish c" "stringable (field c ''score'')"
  shows "\<exists>s. scoreOf big c = Inr s"
proof -
  have "stringable (js_or (field c ''score'') (JStr ''0''))"
    using assms(2) by (simp add: js_or_def stringable_def)
  from stringableD[OF this] obtain n where
    n: "js_parseInt big (js_or (field c ''score'') (JStr ''0'')) = Inr n"
    by (auto simp add: js_parseInt_def)
  from parsed_total[OF js_parseInt_number[OF n]] n assms(1) show ?thesis
    by (simp add: scoreOf_def getField_field)
qed

lemma posOf_total:
  assumes "\<not> nullish c" "stringOrAbsent (field c ''status'')" "stringable (field c ''sortOrder'')"
  shows "\<exists>s. posOf idx c = Inr s"
proof -
  from assms(2) have "\<exists>l. js_toLowerCase (js_or (field c ''status'') (JStr '''')) = Inr l"
    by (cases "field c ''status''") (auto simp add: stringOrAbsent_def js_or_def)
  then obtain l where l: "js_toLowerCase (js_or (field c ''status'') (JStr '''')) = Inr l" ..
  from stringableD[OF assms(3)] obtain s where "js_toString (field c ''sortOrder'') = Inr s" ..
  with l assms(1) show ?thesis
    by (simp add: posOf_def getField_field)
qed

lemma thruOf_total:
  assumes "\<not> nullish c" "listOrAbsent roundShaped (field c ''linescores'')"
  shows "\<exists>s. thruOf nk fin c = Inr s"
proof (cases "field c ''linescores''")
  case (JArr rs)
  show ?thesis
  proof (cases "rs = []")
    case True
    with JArr assms(1) show ?thesis by (simp add: thruOf_def getField_field)
  next
    case False
    with assms(2) JArr have rs: "roundShaped (last rs)"
      by (simp add: listOrAbsent_def list_all_iff)
    have "\<exists>s. (if truthy (last rs) then
            (if truthy (field (last rs) ''linescores'') then js_toString (js_length (field (last rs) ''linescores'')) else Inr ''F'')
          else Inr ''F'') = Inr s"
      using rs by (cases "field (last rs) ''linescores''") (auto simp add: roundShaped_def listOrAbsent_def)
    with False JArr assms(1) show ?thesis
      by (auto simp add: thruOf_def getField_field andField_field)
  qed
qed (use assms in \<open>auto simp add: thruOf_def getField_field listOrAbsent_def\<close>)

lemma nameOf_total: "\<not> nullish c \<Longrightarrow> \<exists>n. nameOf c = Inr n"
  by (simp add: nameOf_def getField_field andField_field)

lemma playerEntry_total:
  assumes "competitorShaped c"
  shows "\<exists>p. playerEntry nk big fin idx c = Inr p"
proof -
  from assms have n: "\<not> nullish c" by (simp add: competitorShaped_def)
  from assms obtain s where s: "scoreOf big c = Inr s"
    using scoreOf_total[of c big] by (auto simp add: competitorShaped_def)
  from assms obtain q where q: "posOf idx c = Inr q"
    using posOf_total[of c idx] by (auto simp add: competitorShaped_def)
  from assms obtain t where t: "thruOf nk fin c = Inr t"
    using thruOf_total[of c nk fin] by (auto simp add: competitorShaped_def)
  from nameOf_total[OF n] obtain m where m: "nameOf c = Inr m" ..
  show ?thesis by (simp add: playerEntry_def s q t m)
qed

lemma mapIdx_total:
  "(\<And>i x. x \<in> set xs \<Longrightarrow> \<exists>y. f i x = Inr y) \<Longrightarrow> \<exists>ys. mapIdx f i xs = Inr ys"
proof (induction xs arbitrary: i)
  case Nil
  then show ?case by simp
next
  case (Cons a xs)
  from Cons.prems[of a i] obtain y where y: "f i a = Inr y" by auto
  from Cons.IH[of "Suc i"] Cons.prems obtain ys where "mapIdx f (Suc i) xs = Inr ys" by auto
  with y show ?case by simp
qed

lemma callMap_total:
  assumes "listOrAbsent competitorShaped cs"
  shows "\<exists>ys. callMap (playerEntry nk big fin) (js_or cs (JArr [])) = Inr ys"
proof (cases "truthy cs")
  case True
  with assms obtain xs where xs: "cs = JArr xs" "list_all competitorShaped xs"
    by (cases cs) (auto simp add: listOrAbsent_def)
  then have "\<exists>ys. mapIdx (playerEntry nk big fin) 0 xs = Inr ys"
    by (intro mapIdx_total playerEntry_total) (simp add: list_all_iff)
  with xs show ?thesis by (simp add: js_or_def)
next
  case False
  then show ?thesis by (simp add: js_or_def)
qed

lemma leaderboardOf_total:
  assumes "truthy compet" "competitionShaped compet" "\<not> nullish ev"
  shows "leaderboardOf e ev compet = Inr NoTournament
       \<or> (\<exists>t r rs ps f. leaderboardOf e ev compet = Inr (Ok t r rs ps f) \<and> ps \<noteq> [])"
proof -
  let ?st = "field compet ''status''"
  let ?per = "if truthy ?st then field ?st ''period'' else ?st"
  have "stringable (js_or ?per (JNum ''1''))"
    using assms(2) by (auto simp add: competitionShaped_def js_or_def stringable_def)
  then obtain r where r: "js_toString (js_or ?per (JNum ''1'')) = Inr r"
    using stringableD by blast
  let ?sn = "js_or (field (field ?st ''type'') ''name'') (JStr [])"
  let ?fin = "?sn = JStr ''STATUS_FINAL'' \<or> ?sn = JStr ''STATUS_PLAY_COMPLETE''"
  from assms(2) obtain ys where
    ys: "callMap (playerEntry (numKey e) (bigString e) ?fin)
           (js_or (field compet ''competitors'') (JArr [])) = Inr ys"
    using callMap_total[of "field compet ''competitors''" "numKey e" "bigString e" ?fin]
    by (auto simp add: competitionShaped_def)
  have per: "andField ?st ''period'' = Inr ?per"
    by (simp add: andField_field)
  show ?thesis
    using assms(1,3) r
    by (simp add: leaderboardOf_def statusTypeField_eq getField_field truthy_not_nullish per ys Let_def)
qed

lemma wellShaped_events:
  "wellShaped d \<Longrightarrow> listOrAbsent (\<lambda>ev. \<not> nullish ev) (field d ''events'')"
  by (cases "field d ''events''") (auto simp add: wellShaped_def listOrAbsent_def eventShaped_def list_all_iff)

lemma wellShaped_event:
  "wellShaped d \<Longrightarrow> ev \<in> set (spec_events d) \<Longrightarrow> eventShaped ev"
  by (cases "field d ''events''") (auto simp add: wellShaped_def listOrAbsent_def spec_events_def list_all_iff)

lemma sample_shaped: "wellShaped samplePayload"
  by code_simp

text \<open>
  C4, as the claim states it, fails on the very inputs it names: a competitor whose
  status is the number 5 makes \<^verbatim>\<open>(c.status || '').toLowerCase()\<close> throw, and a
  \<^verbatim>\<open>competitors\<close> field that is an object has no \<^verbatim>\<open>map\<close>.
\<close>

theorem C4_wrong_types_throw:
  "parseLeaderboard (envAt 0 timedOut) numericStatusPayload = Inl TypeError
   \<and> parseLeaderboard (envAt 0 timedOut) competitorsObjectPayload = Inl TypeError"
  by code_simp

text \<open>
  C4, amended. On every well-shaped payload (not null; \<^verbatim>\<open>events\<close> absent, falsy or a list
  of events that are not null; in the primary competition of each event,
  \<^verbatim>\<open>competitors\<close> absent, falsy or a list of competitors that are not null, whose
  status is absent, falsy or a string, whose line scores are absent, falsy or a list of
  rounds with line scores absent, falsy or a list, and whose period, score and sort
  order have a string form) the normalizer does not throw: it returns
  \<^verbatim>\<open>no_tournament\<close> or an \<^verbatim>\<open>ok\<close> snapshot with at least one player. It writes no state,
  and its result depends on the payload and, through \<^verbatim>\<open>fetchedAt\<close>, on the clock only.
\<close>

theorem C4_normalizer_total:
  assumes "wellShaped d"
  shows "(parseLeaderboard e d = Inr NoTournament
          \<or> (\<exists>t r rs ps f. parseLeaderboard e d = Inr (Ok t r rs ps f) \<and> ps \<noteq> []))
     \<and> parseLeaderboard (e\<lparr>dateNow := t', fetched := r'\<rparr>) d = parseLeaderboard e d"
proof -
  let ?a = "spec_activeEvent (spec_events d)"
  from assms have n: "\<not> nullish d" by (simp add: wellShaped_def)
  have p: "parseLeaderboard e d =
    (if truthy (spec_primary ?a) then leaderboardOf e ?a (spec_primary ?a) else Inr NoTournament)"
    using n wellShaped_events[OF assms] by (rule parse_eq)
  have "parseLeaderboard e d = Inr NoTournament
          \<or> (\<exists>t r rs ps f. parseLeaderboard e d = Inr (Ok t r rs ps f) \<and> ps \<noteq> [])"
  proof (cases "truthy (spec_primary ?a)")
    case False
    then show ?thesis by (simp add: p)
  next
    case True
    then have "?a \<noteq> Undefined" by (auto simp add: spec_primary_falsy)
    with spec_activeEvent_in[of "spec_events d"] have "?a \<in> set (spec_events d)" by simp
    from wellShaped_event[OF assms this]
    have "\<not> nullish ?a" "competitionShaped (spec_primary ?a)" by (simp_all add: eventShaped_def)
    from leaderboardOf_total[OF True this(2,1)] True show ?thesis by (simp add: p)
  qed
  then show ?thesis by (simp add: parse_env)
qed

theorem C4_normalizer_total_witness:
  "wellShaped samplePayload
   \<and> parseLeaderboard (envAt 0 timedOut) samplePayload = Inr sampleSnapshot
   \<and> parseLeaderboard (envAt 0 timedOut\<lparr>dateNow := 5, fetched := Resolved JNull\<rparr>) samplePayload
       = Inr sampleSnapshot"
  using C4_normalizer_total [OF sample_shaped, where e = "envAt 0 timedOut" and t' = 5
      and r' = "Resolved JNull"]
    sample_shaped sample_parse [of 0 timedOut]
  by simp

subsection \<open>The players of a snapshot\<close>

text \<open>
  \<^verbatim>\<open>map\<close> applies the callback to each element together with its index in the list,
  counted from 0, and keeps the order.
\<close>

lemma mapIdx_nth:
  "mapIdx f k xs = Inr ys \<Longrightarrow>
   length ys = length xs \<and> (\<forall>i<length xs. f (k + i) (xs ! i) = Inr (ys ! i))"
proof (induction xs arbitrary: k ys)
  case Nil
  then show ?case by simp
next
  case (Cons a xs)
  from Cons.prems obtain z zs where
    z: "f k a = Inr z" "mapIdx f (Suc k) xs = Inr zs" "ys = z # zs"
    by (auto simp add: andThen_def split: sum.splits)
  from Cons.IH[OF z(2)] have l: "length zs = length xs"
    and n: "\<forall>i<length xs. f (Suc k + i) (xs ! i) = Inr (zs ! i)"
    by auto
  show ?case
  proof (intro conjI allI impI)
    show "length ys = length (a # xs)" using l z(3) by simp
  next
    fix i
    assume "i < length (a # xs)"
    then show "f (k + i) ((a # xs) ! i) = Inr (ys ! i)"
      using z n by (cases i) auto
  qed
qed

lemma leaderboardOf_mapped:
  assumes "leaderboardOf e ev compet = Inr (Ok t r rs ps f)" "truthy compet"
  shows "\<exists>mapped. callMap (playerEntry (numKey e) (bigString e)
           (field (field (field compet ''status'') ''type'') ''name'' = JStr ''STATUS_FINAL''
            \<or> field (field (field compet ''status'') ''type'') ''name'' = JStr ''STATUS_PLAY_COMPLETE''))
           (js_or (field compet ''competitors'') (JArr [])) = Inr mapped
         \<and> ps = filter (\<lambda>p. truthy (name p)) mapped"
proof -
  let ?raw = "field (field (field compet ''status'') ''type'') ''name''"
  let ?sn = "js_or ?raw (JStr [])"
  have fin: "(?sn = JStr ''STATUS_FINAL'' \<or> ?sn = JStr ''STATUS_PLAY_COMPLETE'')
      = (?raw = JStr ''STATUS_FINAL'' \<or> ?raw = JStr ''STATUS_PLAY_COMPLETE'')"
    by (auto simp add: js_or_def)
  from assms(1,2) obtain mapped where
    "callMap (playerEntry (numKey e) (bigString e)
          (?sn = JStr ''STATUS_FINAL'' \<or> ?sn = JStr ''STATUS_PLAY_COMPLETE''))
          (js_or (field compet ''competitors'') (JArr [])) = Inr mapped"
    and "ps = filter (\<lambda>p. truthy (name p)) mapped"
    by (auto simp add: leaderboardOf_def statusTypeField_eq getField_field truthy_not_nullish
        andField_field Let_def andThen_def split: sum.splits if_splits)
  then show ?thesis unfolding fin by blast
qed

lemma callMap_competitors:
  assumes "callMap g (js_or cs (JArr [])) = Inr mapped"
  shows "mapIdx g 0 (case cs of JArr xs \<Rightarrow> xs | _ \<Rightarrow> []) = Inr mapped"
  using assms by (cases cs) (auto simp add: js_or_def split: if_splits)

text \<open>
  The players of an \<^verbatim>\<open>ok\<close> snapshot: the entries that the callback makes of the
  competitors, each with its index in the list, without those whose name is falsy.
\<close>

lemma parse_players:
  assumes "parseLeaderboard e d = Inr (Ok t r rs ps f)"
  shows "\<exists>mapped. length mapped = length (spec_competitors d)
         \<and> ps = filter (\<lambda>p. truthy (name p)) mapped
         \<and> (\<forall>i<length (spec_competitors d).
               playerEntry (numKey e) (bigString e) (spec_finished d) i (spec_competitors d ! i)
                 = Inr (mapped ! i))"
proof -
  let ?a = "spec_activeEvent (spec_events d)"
  from parse_returns[OF assms] have c: "truthy (spec_primary ?a)"
    and lb: "leaderboardOf e ?a (spec_primary ?a) = Inr (Ok t r rs ps f)" by auto
  from leaderboardOf_mapped[OF lb c] obtain mapped where
    m: "callMap (playerEntry (numKey e) (bigString e) (spec_finished d))
          (js_or (field (spec_primary ?a) ''competitors'') (JArr [])) = Inr mapped"
    and ps: "ps = filter (\<lambda>p. truthy (name p)) mapped"
    unfolding spec_finished_def spec_statusName_def by blast
  from callMap_competitors[OF m]
  have "mapIdx (playerEntry (numKey e) (bigString e) (spec_finished d)) 0 (spec_competitors d)
          = Inr mapped"
    by (simp add: spec_competitors_def)
  from mapIdx_nth[OF this] ps show ?thesis by auto
qed

lemma playerEntry_score:
  "playerEntry nk big fin idx c = Inr p \<Longrightarrow> scoreOf big c = Inr (score p)"
  by (auto simp add: playerEntry_def andThen_def split: sum.splits)

lemma playerEntry_position:
  "playerEntry nk big fin idx c = Inr p \<Longrightarrow> posOf idx c = Inr (position p)"
  by (auto simp add: playerEntry_def andThen_def split: sum.splits)

lemma playerEntry_thru:
  "playerEntry nk big fin idx c = Inr p \<Longrightarrow> thruOf nk fin c = Inr (thru p)"
  by (auto simp add: playerEntry_def andThen_def split: sum.splits)

text \<open>A null entry of the competitors list makes the callback throw at its first read.\<close>

lemma scoreOf_nullish: "nullish c \<Longrightarrow> scoreOf big c = Inl TypeError"
  by (auto simp add: nullish_def scoreOf_def)

lemma parse_competitors:
  assumes "parseLeaderboard e d = Inr (Ok t r rs ps f)" "c \<in> set (spec_competitors d)"
  shows "\<not> nullish c"
proof
  assume n: "nullish c"
  from parse_players[OF assms(1)] obtain mapped where
    m: "\<forall>i<length (spec_competitors d).
          playerEntry (numKey e) (bigString e) (spec_finished d) i (spec_competitors d ! i)
            = Inr (mapped ! i)"
    by blast
  from assms(2) obtain i where "i < length (spec_competitors d)" "spec_competitors d ! i = c"
    by (auto simp add: in_set_conv_nth)
  with m have "playerEntry (numKey e) (bigString e) (spec_finished d) i c = Inr (mapped ! i)"
    by auto
  from playerEntry_score[OF this] scoreOf_nullish[OF n] show False by simp
qed

lemma sample_competitors: "spec_competitors samplePayload = [competitorA, competitorB]"
  by code_simp

lemma sample_not_finished: "\<not> spec_finished samplePayload"
  by code_simp

subsection \<open>The score\<close>

lemma digit_of_digit_char: "d < 10 \<Longrightarrow> digit_of 10 (digit_char d) = Some d"
proof -
  assume "d < 10"
  then have "d \<in> {0,1,2,3,4,5,6,7,8,9}" by auto
  then show ?thesis
    by (auto simp add: digit_of_def digit_table_def digit_char_def)
qed

lemma is_dec_other:
  "digit_of 10 c \<noteq> None \<Longrightarrow> \<not> is_ws c \<and> c \<noteq> CHR ''-'' \<and> c \<noteq> CHR ''+'' \<and> c \<noteq> CHR ''x'' \<and> c \<noteq> CHR ''X''"
  by (auto simp add: digit_of_def digit_table_def is_ws_def split: if_splits)

lemma radix_value_snoc:
  "radix_value r (z @ [c]) = radix_value r z * r + (case digit_of r c of None \<Rightarrow> 0 | Some d \<Rightarrow> d)"
  by (simp add: radix_value_def)

lemma dec_nat_digits: "\<forall>c\<in>set (dec_nat n). digit_of 10 c \<noteq> None"
proof (induction n rule: dec_nat.induct)
  case (1 n)
  show ?case
  proof (cases "n < 10")
    case True
    then show ?thesis by (subst dec_nat.simps) (simp add: digit_of_digit_char)
  next
    case False
    with 1 show ?thesis by (subst dec_nat.simps) (simp add: digit_of_digit_char)
  qed
qed

lemma dec_nat_nonempty: "dec_nat n \<noteq> []"
  by (subst dec_nat.simps) simp

lemma radix_value_dec_nat: "radix_value 10 (dec_nat n) = n"
proof (induction n rule: dec_nat.induct)
  case (1 n)
  show ?case
  proof (cases "n < 10")
    case True
    then show ?thesis
      by (subst dec_nat.simps) (simp add: radix_value_def digit_of_digit_char)
  next
    case False
    with 1 show ?thesis
      by (subst dec_nat.simps) (simp add: radix_value_snoc digit_of_digit_char)
  qed
qed

lemma mathInt_digits:
  assumes "ds \<noteq> []" and "\<forall>c\<in>set ds. digit_of 10 c \<noteq> None"
  shows "mathInt ds = Some (int (radix_value 10 ds))"
proof -
  from assms obtain a as where ds: "ds = a # as" by (cases ds) auto
  with assms have a: "digit_of 10 a \<noteq> None" by simp
  have two: "take 2 ds \<noteq> ''0x''" "take 2 ds \<noteq> ''0X''"
    using assms(2) is_dec_other by (cases as; auto simp add: ds)+
  have all: "takeWhile (\<lambda>c. digit_of 10 c \<noteq> None) ds = ds"
    using assms(2) by (simp add: takeWhile_eq_all_conv)
  have "dropWhile is_ws ds = ds" using a is_dec_other by (simp add: ds)
  moreover have "take 1 ds \<noteq> ''-''" "take 1 ds \<noteq> ''+''" using a is_dec_other by (auto simp add: ds)
  ultimately show ?thesis
    using two assms(1) by (simp add: all mathInt_def Let_def del: not_None_eq)
qed

lemma mathInt_neg_digits:
  assumes "ds \<noteq> []" and "\<forall>c\<in>set ds. digit_of 10 c \<noteq> None"
  shows "mathInt (CHR ''-'' # ds) = Some (- int (radix_value 10 ds))"
proof -
  from assms obtain a as where ds: "ds = a # as" by (cases ds) auto
  with assms have a: "digit_of 10 a \<noteq> None" by simp
  have two: "take 2 ds \<noteq> ''0x''" "take 2 ds \<noteq> ''0X''"
    using assms(2) is_dec_other by (cases as; auto simp add: ds)+
  have all: "takeWhile (\<lambda>c. digit_of 10 c \<noteq> None) ds = ds"
    using assms(2) by (simp add: takeWhile_eq_all_conv)
  have "\<not> is_ws (CHR ''-'')" by (simp add: is_ws_def)
  then show ?thesis
    using two assms(1) by (simp add: all mathInt_def Let_def del: not_None_eq)
qed

text \<open>\<^verbatim>\<open>parseInt\<close> reads an integer back from its decimal digits.\<close>

lemma mathInt_dec: "mathInt (dec i) = Some i"
  by (simp add: dec_def mathInt_digits mathInt_neg_digits dec_nat_nonempty dec_nat_digits radix_value_dec_nat)

lemma mathInt_nonnumeric:
  assumes "\<not> is_ws a" "a \<noteq> CHR ''-''" "a \<noteq> CHR ''+''" "digit_of 10 a = None"
  shows "mathInt (a # s) = None"
proof -
  have "a \<noteq> CHR ''0''" using assms(4) by (auto simp add: digit_of_def digit_table_def)
  with assms show ?thesis by (simp add: mathInt_def Let_def)
qed

lemma mathInt_zero: "mathInt ''0'' = Some 0"
  by (simp add: mathInt_def is_ws_def digit_of_def digit_table_def radix_value_def)

lemma mathInt_NaN: "mathInt ''NaN'' = None"
  by (rule mathInt_nonnumeric) (simp_all add: is_ws_def digit_of_def digit_table_def)

lemma dec_nonempty: "dec n \<noteq> []"
  by (simp add: dec_def dec_nat_nonempty)

lemma dec_zero: "dec m = ''0'' \<longleftrightarrow> m = 0"
proof
  assume "dec m = ''0''"
  then have "mathInt (dec m) = mathInt ''0''" by simp
  then show "m = 0" by (simp add: mathInt_dec mathInt_zero)
next
  assume "m = 0"
  then show "dec m = ''0''" by (simp add: dec_def dec_nat.simps digit_char_def)
qed

lemma dec_not_NaN: "dec m \<noteq> ''NaN''"
proof
  assume "dec m = ''NaN''"
  then have "mathInt (dec m) = mathInt ''NaN''" by simp
  then show False by (simp add: mathInt_dec mathInt_NaN)
qed

lemma dec_negative: "take 1 (dec m) = ''-'' \<longleftrightarrow> m < 0"
proof (cases "m < 0")
  case True
  then show ?thesis by (simp add: dec_def)
next
  case False
  obtain a as where a: "dec_nat (nat m) = a # as"
    using dec_nat_nonempty[of "nat m"] by (cases "dec_nat (nat m)") auto
  with dec_nat_digits[of "nat m"] have "digit_of 10 a \<noteq> None" by simp
  then have "a \<noteq> CHR ''-''" using is_dec_other by blast
  with False a show ?thesis by (simp add: dec_def)
qed

text \<open>
  The score, from the string form \<open>s\<close> of \<^verbatim>\<open>c.score || '0'\<close> and the integer that
  \<^verbatim>\<open>parseInt\<close> reads from it.
\<close>

lemma scoreOf_eq:
  assumes "\<not> nullish c" "js_toString (js_or (field c ''score'') (JStr ''0'')) = Inr s"
  shows "scoreOf big c =
     Inr (case mathInt s of
            None \<Rightarrow> ''E''
          | Some m \<Rightarrow>
              if \<bar>m\<bar> \<le> 2 ^ 53
              then (if m = 0 then ''E'' else if m < 0 then dec m else ''+'' @ dec m)
              else (if big m = ''NaN'' \<or> big m = ''0'' then ''E''
                    else if take 1 (big m) = ''-'' then big m else ''+'' @ big m))"
  using assms
  by (simp add: scoreOf_def getField_field js_parseInt_def numberOf_def dec_zero dec_not_NaN
      dec_negative [unfolded One_nat_def] split: option.splits)

lemma mathInt_examples:
  "mathInt ''1000000000000000000000'' = Some (10 ^ 21)"
  "mathInt ''0.5'' = Some 0"
  "mathInt ''  12abc'' = Some 12"
  "mathInt ''+1000000000000000000000'' = Some (10 ^ 21)"
  "mathInt [CHR 0xA0, CHR ''5''] = Some 5"
  by (simp_all add: mathInt_def is_ws_def digit_of_def digit_table_def radix_value_def)

text \<open>
  C6, as the claim states it, fails. A score that is an object with an own property
  \<^verbatim>\<open>toString\<close> is not numeric, but it has no string form: \<^verbatim>\<open>parseInt\<close> throws, and
  no score is formatted. A null entry of the competitors list has no score field to
  read: \<^verbatim>\<open>c.score\<close> throws. And the score \<^verbatim>\<open>1000000000000000000000\<close> parses to the
  positive integer \<open>10^21\<close>, but its formatted score is \<^verbatim>\<open>+1e+21\<close>, which is no
  decimal string.
\<close>

theorem C6_score_not_decimal:
  "scoreOf (bigString (envAt 0 timedOut))
      (JObj [(''score'', JObj [(''toString'', JNum ''1'')])]) = Inl TypeError
   \<and> scoreOf (bigString (envAt 0 timedOut)) JNull = Inl TypeError
   \<and> mathInt ''1000000000000000000000'' = Some (10 ^ 21)
   \<and> scoreOf (bigString (envAt 0 timedOut))
        (JObj [(''score'', JStr ''1000000000000000000000'')]) = Inr ''+1e+21''"
  by (simp add: scoreOf_def own_def js_or_def js_parseInt_def numberOf_def mathInt_examples
      envAt_def)

text \<open>
  C6, amended. For a competitor \<open>c\<close> that is not null: the formatted score is \<^verbatim>\<open>E\<close>
  when the score field is absent or falsy. When the field is truthy and has the string
  form \<open>s\<close>, the score is \<^verbatim>\<open>E\<close> when \<^verbatim>\<open>parseInt\<close> finds no digit in \<open>s\<close> (so for a
  string that begins with a character that is no digit, sign or white space) and when
  the integer read is 0; when the integer read, \<open>m\<close>, is not 0 and at most \<open>2^53\<close> in
  absolute value, the score is the signed decimal string of \<open>m\<close> for \<open>m < 0\<close> and the
  decimal string with \<^verbatim>\<open>+\<close> in front for \<open>m > 0\<close>; so it is for the number \<open>n\<close> and for
  its decimal string, which both read as \<open>n\<close>. Beyond \<open>2^53\<close> the score is made in the
  same way of the string form that the engine gives to the nearest double. In an
  \<^verbatim>\<open>ok\<close> snapshot the players are the entries made of the competitors of the payload, in
  the order of the list, without those whose name is falsy, and the score of each entry
  is the formatted score of its competitor; none of these competitors is null.
\<close>

theorem C6_score_format:
  assumes "\<not> nullish c"
  shows "(\<not> truthy (field c ''score'') \<longrightarrow> scoreOf big c = Inr ''E'')
   \<and> (\<bar>n\<bar> \<le> 2 ^ 53 \<and> (field c ''score'' = JNum (dec n) \<or> field c ''score'' = JStr (dec n)) \<longrightarrow>
        scoreOf big c = Inr (if n = 0 then ''E'' else if n < 0 then dec n else ''+'' @ dec n))
   \<and> (truthy (field c ''score'') \<and> js_toString (field c ''score'') = Inr s
        \<and> mathInt s = None \<longrightarrow> scoreOf big c = Inr ''E'')
   \<and> (truthy (field c ''score'') \<and> js_toString (field c ''score'') = Inr s
        \<and> mathInt s = Some m \<and> \<bar>m\<bar> \<le> 2 ^ 53 \<longrightarrow>
        scoreOf big c = Inr (if m = 0 then ''E'' else if m < 0 then dec m else ''+'' @ dec m))
   \<and> (truthy (field c ''score'') \<and> js_toString (field c ''score'') = Inr s
        \<and> mathInt s = Some m \<and> 2 ^ 53 < \<bar>m\<bar> \<longrightarrow>
        scoreOf big c = Inr (if big m = ''NaN'' \<or> big m = ''0'' then ''E''
                             else if take 1 (big m) = ''-'' then big m else ''+'' @ big m))
   \<and> (field c ''score'' = JStr (a # t) \<and> \<not> is_ws a \<and> a \<noteq> CHR ''-'' \<and> a \<noteq> CHR ''+''
        \<and> digit_of 10 a = None \<longrightarrow> scoreOf big c = Inr ''E'')
   \<and> (parseLeaderboard e d = Inr (Ok tn r rs ps f) \<longrightarrow>
        (\<exists>mapped. length mapped = length (spec_competitors d)
           \<and> ps = filter (\<lambda>p. truthy (name p)) mapped
           \<and> (\<forall>i<length (spec_competitors d).
                 scoreOf (bigString e) (spec_competitors d ! i) = Inr (score (mapped ! i)))))
   \<and> (parseLeaderboard e d = Inr (Ok tn r rs ps f) \<longrightarrow>
        (\<forall>x\<in>set (spec_competitors d). \<not> nullish x))"
proof (intro conjI impI)
  assume "\<not> truthy (field c ''score'')"
  then have "js_toString (js_or (field c ''score'') (JStr ''0'')) = Inr ''0''"
    by (simp add: js_or_def)
  from scoreOf_eq[OF assms this] show "scoreOf big c = Inr ''E''"
    by (simp add: mathInt_zero)
next
  assume h: "\<bar>n\<bar> \<le> 2 ^ 53 \<and> (field c ''score'' = JNum (dec n) \<or> field c ''score'' = JStr (dec n))"
  show "scoreOf big c = Inr (if n = 0 then ''E'' else if n < 0 then dec n else ''+'' @ dec n)"
  proof (cases "field c ''score'' = JNum (dec n) \<and> n = 0")
    case True
    then have "js_toString (js_or (field c ''score'') (JStr ''0'')) = Inr ''0''"
      by (simp add: js_or_def dec_zero)
    from scoreOf_eq[OF assms this] True show ?thesis by (simp add: mathInt_zero)
  next
    case False
    with h have "js_toString (js_or (field c ''score'') (JStr ''0'')) = Inr (dec n)"
      by (auto simp add: js_or_def dec_nonempty dec_zero dec_not_NaN)
    from scoreOf_eq[OF assms this] h show ?thesis by (simp add: mathInt_dec)
  qed
next
  assume "truthy (field c ''score'') \<and> js_toString (field c ''score'') = Inr s
        \<and> mathInt s = None"
  then have "js_toString (js_or (field c ''score'') (JStr ''0'')) = Inr s" "mathInt s = None"
    by (simp_all add: js_or_def)
  from scoreOf_eq[OF assms this(1)] this(2) show "scoreOf big c = Inr ''E''" by simp
next
  assume "truthy (field c ''score'') \<and> js_toString (field c ''score'') = Inr s
        \<and> mathInt s = Some m \<and> \<bar>m\<bar> \<le> 2 ^ 53"
  then have "js_toString (js_or (field c ''score'') (JStr ''0'')) = Inr s"
    and m: "mathInt s = Some m" "\<bar>m\<bar> \<le> 2 ^ 53"
    by (simp_all add: js_or_def)
  from scoreOf_eq[OF assms this(1)] m
  show "scoreOf big c = Inr (if m = 0 then ''E'' else if m < 0 then dec m else ''+'' @ dec m)"
    by simp
next
  assume "truthy (field c ''score'') \<and> js_toString (field c ''score'') = Inr s
        \<and> mathInt s = Some m \<and> 2 ^ 53 < \<bar>m\<bar>"
  then have "js_toString (js_or (field c ''score'') (JStr ''0'')) = Inr s"
    and m: "mathInt s = Some m" "\<not> \<bar>m\<bar> \<le> 2 ^ 53"
    by (simp_all add: js_or_def)
  from scoreOf_eq[OF assms this(1)] m
  show "scoreOf big c = Inr (if big m = ''NaN'' \<or> big m = ''0'' then ''E''
                             else if take 1 (big m) = ''-'' then big m else ''+'' @ big m)"
    by simp
next
  assume h: "field c ''score'' = JStr (a # t) \<and> \<not> is_ws a \<and> a \<noteq> CHR ''-'' \<and> a \<noteq> CHR ''+''
        \<and> digit_of 10 a = None"
  then have "js_toString (js_or (field c ''score'') (JStr ''0'')) = Inr (a # t)"
    by (simp add: js_or_def)
  from scoreOf_eq[OF assms this] h show "scoreOf big c = Inr ''E''"
    by (simp add: mathInt_nonnumeric)
next
  assume "parseLeaderboard e d = Inr (Ok tn r rs ps f)"
  from parse_players[OF this] obtain mapped where
    m: "length mapped = length (spec_competitors d)" "ps = filter (\<lambda>p. truthy (name p)) mapped"
      "\<forall>i<length (spec_competitors d).
          playerEntry (numKey e) (bigString e) (spec_finished d) i (spec_competitors d ! i)
            = Inr (mapped ! i)"
    by blast
  from m(3) have "\<forall>i<length (spec_competitors d).
      scoreOf (bigString e) (spec_competitors d ! i) = Inr (score (mapped ! i))"
    by (auto dest: playerEntry_score)
  with m(1,2) show "\<exists>mapped. length mapped = length (spec_competitors d)
           \<and> ps = filter (\<lambda>p. truthy (name p)) mapped
           \<and> (\<forall>i<length (spec_competitors d).
                 scoreOf (bigString e) (spec_competitors d ! i) = Inr (score (mapped ! i)))"
    by blast
next
  assume "parseLeaderboard e d = Inr (Ok tn r rs ps f)"
  then show "\<forall>x\<in>set (spec_competitors d). \<not> nullish x"
    using parse_competitors by blast
qed

theorem C6_score_format_witness:
  "scoreOf (bigString (envAt 0 timedOut)) (JObj [(''score'', JNum ''0'')]) = Inr ''E''
   \<and> scoreOf (bigString (envAt 0 timedOut)) (JObj []) = Inr ''E''
   \<and> scoreOf (bigString (envAt 0 timedOut)) (JObj [(''score'', JStr ''E'')]) = Inr ''E''
   \<and> scoreOf (bigString (envAt 0 timedOut)) (JObj [(''score'', JStr ''-3'')]) = Inr ''-3''
   \<and> scoreOf (bigString (envAt 0 timedOut)) (JObj [(''score'', JNum ''5'')]) = Inr ''+5''
   \<and> scoreOf (bigString (envAt 0 timedOut)) (JObj [(''score'', JNum ''0.5'')]) = Inr ''E''
   \<and> scoreOf (bigString (envAt 0 timedOut)) (JObj [(''score'', JStr ''  12abc'')]) = Inr ''+12''
   \<and> scoreOf (bigString (envAt 0 timedOut))
        (JObj [(''score'', JStr [CHR 0xA0, CHR ''5''])]) = Inr ''+5''
   \<and> scoreOf (bigString (envAt 0 timedOut))
        (JObj [(''score'', JStr ''+1000000000000000000000'')]) = Inr ''+1e+21''
   \<and> (\<exists>mapped. players sampleSnapshot = filter (\<lambda>p. truthy (name p)) mapped
        \<and> scoreOf (bigString (envAt 0 timedOut)) competitorA = Inr (score (mapped ! 0))
        \<and> scoreOf (bigString (envAt 0 timedOut)) competitorB = Inr (score (mapped ! 1)))"
proof -
  let ?b = "bigString (envAt 0 timedOut)"
  have n: "\<not> nullish (JObj kvs)" for kvs by (simp add: nullish_def)
  have d: "dec (- 3) = ''-3''" "dec 5 = ''5''" "dec 12 = ''12''"
    by (simp_all add: dec_def dec_nat.simps digit_char_def)
  have e: "digit_of 10 CHR ''E'' = None" "\<not> is_ws CHR ''E''"
    by (simp_all add: digit_of_def digit_table_def is_ws_def)
  note p = mathInt_examples(2,3,4)
  from C6_score_format [where c = "JObj [(''score'', JNum ''0'')]" and big = ?b, OF n]
  have 1: "scoreOf ?b (JObj [(''score'', JNum ''0'')]) = Inr ''E''"
    by (simp add: field_def own_def)
  from C6_score_format [where c = "JObj []" and big = ?b, OF n]
  have 2: "scoreOf ?b (JObj []) = Inr ''E''"
    by (simp add: field_def own_def)
  from C6_score_format [where c = "JObj [(''score'', JStr ''E'')]" and big = ?b
      and a = "CHR ''E''" and t = "[]", OF n] e
  have 3: "scoreOf ?b (JObj [(''score'', JStr ''E'')]) = Inr ''E''"
    by (simp add: field_def own_def)
  from C6_score_format [where c = "JObj [(''score'', JStr ''-3'')]" and big = ?b
      and n = "- 3", OF n]
  have 4: "scoreOf ?b (JObj [(''score'', JStr ''-3'')]) = Inr ''-3''"
    by (simp add: field_def own_def d)
  from C6_score_format [where c = "JObj [(''score'', JNum ''5'')]" and big = ?b
      and n = 5, OF n]
  have 5: "scoreOf ?b (JObj [(''score'', JNum ''5'')]) = Inr ''+5''"
    by (simp add: field_def own_def d)
  from C6_score_format [where c = "JObj [(''score'', JNum ''0.5'')]" and big = ?b
      and s = "''0.5''" and m = 0, OF n] p(1)
  have 6: "scoreOf ?b (JObj [(''score'', JNum ''0.5'')]) = Inr ''E''"
    by (simp add: field_def own_def)
  from C6_score_format [where c = "JObj [(''score'', JStr ''  12abc'')]" and big = ?b
      and s = "''  12abc''" and m = 12, OF n] p(2)
  have 7: "scoreOf ?b (JObj [(''score'', JStr ''  12abc'')]) = Inr ''+12''"
    by (simp add: field_def own_def d)
  from C6_score_format [where c = "JObj [(''score'', JStr [CHR 0xA0, CHR ''5''])]"
      and big = ?b and s = "[CHR 0xA0, CHR ''5'']" and m = 5, OF n] mathInt_examples(5)
  have 10: "scoreOf ?b (JObj [(''score'', JStr [CHR 0xA0, CHR ''5''])]) = Inr ''+5''"
    by (simp add: field_def own_def d)
  from C6_score_format [where c = "JObj [(''score'', JStr ''+1000000000000000000000'')]"
      and big = ?b and s = "''+1000000000000000000000''" and m = "10 ^ 21", OF n] p(3)
  have 8: "scoreOf ?b (JObj [(''score'', JStr ''+1000000000000000000000'')]) = Inr ''+1e+21''"
    by (simp add: field_def own_def envAt_def)
  have sp: "parseLeaderboard (envAt 0 timedOut) samplePayload =
      Inr (Ok (JStr ''The Open'') ''Round 2'' (JStr ''Round 2'') (players sampleSnapshot)
             ''2026-01-01T00:00:00.000Z'')"
    by (simp add: sample_parse sampleSnapshot_def)
  from C6_score_format [where c = "JObj []" and e = "envAt 0 timedOut" and d = samplePayload
      and ps = "players sampleSnapshot", OF n, THEN conjunct2, THEN conjunct2, THEN conjunct2,
      THEN conjunct2, THEN conjunct2, THEN conjunct2, THEN conjunct1, THEN mp, OF sp]
  obtain mapped where m: "players sampleSnapshot = filter (\<lambda>p. truthy (name p)) mapped"
    "\<forall>i<length (spec_competitors samplePayload).
        scoreOf ?b (spec_competitors samplePayload ! i) = Inr (score (mapped ! i))"
    by blast
  from m(2) [rule_format, of 0] m(2) [rule_format, of 1]
  have "scoreOf ?b competitorA = Inr (score (mapped ! 0))"
    "scoreOf ?b competitorB = Inr (score (mapped ! 1))"
    by (simp_all add: sample_competitors)
  with m(1) have 9: "\<exists>mapped. players sampleSnapshot = filter (\<lambda>p. truthy (name p)) mapped
        \<and> scoreOf ?b competitorA = Inr (score (mapped ! 0))
        \<and> scoreOf ?b competitorB = Inr (score (mapped ! 1))"
    by blast
  from 1 2 3 4 5 6 7 8 9 10 show ?thesis by simp
qed

subsection \<open>The position\<close>

lemma lower_char_c: "lower_char a = CHR ''c'' \<longleftrightarrow> a = CHR ''c'' \<or> a = CHR ''C''"
  by (simp add: lower_char_def upper_chars_def lower_chars_def)
lemma lower_char_u: "lower_char a = CHR ''u'' \<longleftrightarrow> a = CHR ''u'' \<or> a = CHR ''U''"
  by (simp add: lower_char_def upper_chars_def lower_chars_def)
lemma lower_char_t: "lower_char a = CHR ''t'' \<longleftrightarrow> a = CHR ''t'' \<or> a = CHR ''T''"
  by (simp add: lower_char_def upper_chars_def lower_chars_def)
lemma lower_char_w: "lower_char a = CHR ''w'' \<longleftrightarrow> a = CHR ''w'' \<or> a = CHR ''W''"
  by (simp add: lower_char_def upper_chars_def lower_chars_def)
lemma lower_char_d: "lower_char a = CHR ''d'' \<longleftrightarrow> a = CHR ''d'' \<or> a = CHR ''D''"
  by (simp add: lower_char_def upper_chars_def lower_chars_def)

lemma lower_cut: "map lower_char s = ''cut'' \<longleftrightarrow> s \<in> set cutSpellings"
proof
  assume h: "map lower_char s = ''cut''"
  then obtain a s1 where 1: "s = a # s1" "lower_char a = CHR ''c''" "map lower_char s1 = ''ut''"
    by (cases s) auto
  then obtain b s2 where 2: "s1 = b # s2" "lower_char b = CHR ''u''" "map lower_char s2 = ''t''"
    by (cases s1) auto
  then obtain c where 3: "s2 = [c]" "lower_char c = CHR ''t''"
    by (cases s2) auto
  from 1(2) 2(2) 3(2) have "(a = CHR ''c'' \<or> a = CHR ''C'') \<and> (b = CHR ''u'' \<or> b = CHR ''U'')
      \<and> (c = CHR ''t'' \<or> c = CHR ''T'')"
    by (simp only: lower_char_c lower_char_u lower_char_t)
  then show "s \<in> set cutSpellings"
    unfolding 1(1) 2(1) 3(1) cutSpellings_def by (elim conjE disjE) simp_all
next
  assume "s \<in> set cutSpellings"
  then have "s = ''cut'' \<or> s = ''cuT'' \<or> s = ''cUt'' \<or> s = ''cUT'' \<or> s = ''Cut'' \<or> s = ''CuT''
      \<or> s = ''CUt'' \<or> s = ''CUT''"
    by (simp add: cutSpellings_def)
  then show "map lower_char s = ''cut''"
    by (elim disjE) (simp_all add: lower_char_c lower_char_u lower_char_t)
qed

lemma lower_wd: "map lower_char s = ''wd'' \<longleftrightarrow> s \<in> set wdSpellings"
proof
  assume h: "map lower_char s = ''wd''"
  then obtain a s1 where 1: "s = a # s1" "lower_char a = CHR ''w''" "map lower_char s1 = ''d''"
    by (cases s) auto
  then obtain b where 2: "s1 = [b]" "lower_char b = CHR ''d''"
    by (cases s1) auto
  from 1(2) 2(2) have "(a = CHR ''w'' \<or> a = CHR ''W'') \<and> (b = CHR ''d'' \<or> b = CHR ''D'')"
    by (simp only: lower_char_w lower_char_d)
  then show "s \<in> set wdSpellings"
    unfolding 1(1) 2(1) wdSpellings_def by (elim conjE disjE) simp_all
next
  assume "s \<in> set wdSpellings"
  then have "s = ''wd'' \<or> s = ''wD'' \<or> s = ''Wd'' \<or> s = ''WD''"
    by (simp add: wdSpellings_def)
  then show "map lower_char s = ''wd''"
    by (elim disjE) (simp_all add: lower_char_w lower_char_d)
qed

lemma nil_spellings: "[] \<notin> set cutSpellings" "[] \<notin> set wdSpellings"
  by (simp_all add: cutSpellings_def wdSpellings_def)

lemma posOf_eq:
  assumes "\<not> nullish c" "field c ''status'' = JStr s"
  shows "posOf idx c =
     (if s \<in> set cutSpellings then Inr ''MC''
      else if s \<in> set wdSpellings then Inr ''WD''
      else if truthy (field c ''sortOrder'') then js_toString (field c ''sortOrder'')
      else Inr (dec (int idx + 1)))"
  using assms by (simp add: posOf_def getField_field js_or_def lower_cut lower_wd nil_spellings)

lemma posOf_absent:
  assumes "\<not> nullish c" "\<not> truthy (field c ''status'')"
  shows "posOf idx c =
     (if truthy (field c ''sortOrder'') then js_toString (field c ''sortOrder'')
      else Inr (dec (int idx + 1)))"
  using assms by (simp add: posOf_def getField_field js_or_def)

text \<open>
  C7, as the claim states it, fails: a competitor whose sort-order field is present and
  0 gets the position of its index plus one (\<^verbatim>\<open>1\<close> at index 0), not \<^verbatim>\<open>0\<close>. The program
  tests \<^verbatim>\<open>c.sortOrder ? ... : ...\<close>, so every falsy sort order counts as absent.
\<close>

theorem C7_sortOrder_zero:
  "posOf 0 (JObj [(''sortOrder'', JNum ''0'')]) = Inr ''1''"
  by (simp add: posOf_def js_or_def own_def dec_def dec_nat.simps digit_char_def)

text \<open>
  C7, amended. For a competitor \<open>c\<close> (not null) at the index \<open>idx\<close>: the position is
  \<^verbatim>\<open>MC\<close> when the status is \<^verbatim>\<open>cut\<close> in any mix of cases and \<^verbatim>\<open>WD\<close> when it is \<^verbatim>\<open>wd\<close>
  in any mix of cases, whatever the sort order; when the status is absent, falsy or any
  other string, the position is the string form of the sort-order field if that field
  is truthy, and the string form of index + 1 if it is absent or falsy (null, false,
  0, the empty string). In an \<^verbatim>\<open>ok\<close> snapshot the players are the entries made of the
  competitors of the payload, in the order of the list, without those whose name is
  falsy, and the position of each entry is this position of its competitor, at the
  index that the competitor has in the list, counted from 0; none of these competitors
  is null.
\<close>

theorem C7_position:
  assumes "\<not> nullish c"
  shows "(field c ''status'' \<in> JStr ` set cutSpellings \<longrightarrow> posOf idx c = Inr ''MC'')
   \<and> (field c ''status'' \<in> JStr ` set wdSpellings \<longrightarrow> posOf idx c = Inr ''WD'')
   \<and> (stringOrAbsent (field c ''status'')
       \<and> field c ''status'' \<notin> JStr ` set (cutSpellings @ wdSpellings) \<longrightarrow>
        posOf idx c =
          (if truthy (field c ''sortOrder'') then js_toString (field c ''sortOrder'')
           else Inr (dec (int idx + 1))))
   \<and> (parseLeaderboard e d = Inr (Ok tn r rs ps f) \<longrightarrow>
        (\<exists>mapped. length mapped = length (spec_competitors d)
           \<and> ps = filter (\<lambda>p. truthy (name p)) mapped
           \<and> (\<forall>i<length (spec_competitors d).
                 posOf i (spec_competitors d ! i) = Inr (position (mapped ! i)))))
   \<and> (parseLeaderboard e d = Inr (Ok tn r rs ps f) \<longrightarrow>
        (\<forall>x\<in>set (spec_competitors d). \<not> nullish x))"
proof (intro conjI impI)
  assume "field c ''status'' \<in> JStr ` set cutSpellings"
  then show "posOf idx c = Inr ''MC''" using posOf_eq[OF assms] by auto
next
  assume "field c ''status'' \<in> JStr ` set wdSpellings"
  then obtain s where s: "field c ''status'' = JStr s" "s \<in> set wdSpellings" by auto
  then have "s \<notin> set cutSpellings" by (auto simp add: wdSpellings_def cutSpellings_def)
  with s show "posOf idx c = Inr ''WD''" using posOf_eq[OF assms] by auto
next
  assume h: "stringOrAbsent (field c ''status'')
       \<and> field c ''status'' \<notin> JStr ` set (cutSpellings @ wdSpellings)"
  show "posOf idx c =
          (if truthy (field c ''sortOrder'') then js_toString (field c ''sortOrder'')
           else Inr (dec (int idx + 1)))"
  proof (cases "field c ''status''")
    case (JStr s)
    with h have "s \<notin> set cutSpellings" "s \<notin> set wdSpellings" by auto
    with JStr show ?thesis using posOf_eq[OF assms] by simp
  qed (use h posOf_absent[OF assms] in \<open>simp_all add: stringOrAbsent_def\<close>)
next
  assume "parseLeaderboard e d = Inr (Ok tn r rs ps f)"
  from parse_players[OF this] obtain mapped where
    m: "length mapped = length (spec_competitors d)" "ps = filter (\<lambda>p. truthy (name p)) mapped"
      "\<forall>i<length (spec_competitors d).
          playerEntry (numKey e) (bigString e) (spec_finished d) i (spec_competitors d ! i)
            = Inr (mapped ! i)"
    by blast
  from m(3) have "\<forall>i<length (spec_competitors d).
      posOf i (spec_competitors d ! i) = Inr (position (mapped ! i))"
    by (auto dest: playerEntry_position)
  with m(1,2) show "\<exists>mapped. length mapped = length (spec_competitors d)
           \<and> ps = filter (\<lambda>p. truthy (name p)) mapped
           \<and> (\<forall>i<length (spec_competitors d).
                 posOf i (spec_competitors d ! i) = Inr (position (mapped ! i)))"
    by blast
next
  assume "parseLeaderboard e d = Inr (Ok tn r rs ps f)"
  then show "\<forall>x\<in>set (spec_competitors d). \<not> nullish x"
    using parse_competitors by blast
qed

theorem C7_position_witness:
  "posOf 0 competitorB = Inr ''MC''
   \<and> posOf 3 (JObj [(''status'', JStr ''Wd''), (''sortOrder'', JNum ''9'')]) = Inr ''WD''
   \<and> posOf 0 competitorA = Inr ''1''
   \<and> posOf 4 (JObj [(''status'', JStr ''active'')]) = Inr ''5''
   \<and> (\<exists>mapped. players sampleSnapshot = filter (\<lambda>p. truthy (name p)) mapped
        \<and> posOf 0 competitorA = Inr (position (mapped ! 0))
        \<and> posOf 1 competitorB = Inr (position (mapped ! 1)))
   \<and> (\<exists>ps mapped. parseLeaderboard (envAt 0 timedOut) unsortedPayload
            = Inr (Ok (JStr ''The Open'') ''Round 2'' (JStr ''Round 2'') ps
                     ''2026-01-01T00:00:00.000Z'')
        \<and> ps = filter (\<lambda>p. truthy (name p)) mapped
        \<and> position (mapped ! 0) = ''MC'' \<and> position (mapped ! 1) = ''2'')"
proof -
  let ?w = "JObj [(''status'', JStr ''Wd''), (''sortOrder'', JNum ''9'')]"
  let ?x = "JObj [(''status'', JStr ''active'')]"
  have n: "\<not> nullish competitorB" "\<not> nullish ?w" "\<not> nullish competitorA" "\<not> nullish ?x"
    by (simp_all add: nullish_def competitorA_def competitorB_def)
  have 1: "field competitorB ''status'' \<in> JStr ` set cutSpellings"
    by (simp add: competitorB_def field_def own_def cutSpellings_def)
  have 2: "field ?w ''status'' \<in> JStr ` set wdSpellings"
    by (simp add: field_def own_def wdSpellings_def)
  have 3: "stringOrAbsent (field competitorA ''status'')
       \<and> field competitorA ''status'' \<notin> JStr ` set (cutSpellings @ wdSpellings)"
    by (auto simp add: competitorA_def field_def own_def stringOrAbsent_def)
  have 4: "stringOrAbsent (field ?x ''status'')
       \<and> field ?x ''status'' \<notin> JStr ` set (cutSpellings @ wdSpellings)"
    by (auto simp add: field_def own_def stringOrAbsent_def cutSpellings_def wdSpellings_def)
  have d: "dec 1 = ''1''" "dec 5 = ''5''"
    by (simp_all add: dec_def dec_nat.simps digit_char_def)
  from C7_position [OF n(1), where idx = 0] 1
  have r1: "posOf 0 competitorB = Inr ''MC''"
    by blast
  from C7_position [OF n(2), where idx = 3] 2
  have r2: "posOf 3 ?w = Inr ''WD''"
    by blast
  from C7_position [OF n(3), where idx = 0] 3
  have "posOf 0 competitorA =
          (if truthy (field competitorA ''sortOrder'') then js_toString (field competitorA ''sortOrder'')
           else Inr (dec (int 0 + 1)))"
    by blast
  then have r3: "posOf 0 competitorA = Inr ''1''"
    by (simp add: competitorA_def field_def own_def d)
  from C7_position [OF n(4), where idx = 4] 4
  have "posOf 4 ?x =
          (if truthy (field ?x ''sortOrder'') then js_toString (field ?x ''sortOrder'')
           else Inr (dec (int 4 + 1)))"
    by blast
  then have r4: "posOf 4 ?x = Inr ''5''"
    by (simp add: field_def own_def d)
  have sp: "parseLeaderboard (envAt 0 timedOut) samplePayload =
      Inr (Ok (JStr ''The Open'') ''Round 2'' (JStr ''Round 2'') (players sampleSnapshot)
             ''2026-01-01T00:00:00.000Z'')"
    by (simp add: sample_parse sampleSnapshot_def)
  from C7_position [OF n(1), where e = "envAt 0 timedOut" and d = samplePayload
      and ps = "players sampleSnapshot", THEN conjunct2, THEN conjunct2, THEN conjunct2,
      THEN conjunct1, THEN mp, OF sp]
  obtain mapped where m: "players sampleSnapshot = filter (\<lambda>p. truthy (name p)) mapped"
    "\<forall>i<length (spec_competitors samplePayload).
        posOf i (spec_competitors samplePayload ! i) = Inr (position (mapped ! i))"
    by blast
  from m(2) [rule_format, of 0] m(2) [rule_format, of 1]
  have "posOf 0 competitorA = Inr (position (mapped ! 0))"
    "posOf 1 competitorB = Inr (position (mapped ! 1))"
    by (simp_all add: sample_competitors)
  with m(1) have r5: "\<exists>mapped. players sampleSnapshot = filter (\<lambda>p. truthy (name p)) mapped
        \<and> posOf 0 competitorA = Inr (position (mapped ! 0))
        \<and> posOf 1 competitorB = Inr (position (mapped ! 1))"
    by blast
  let ?ps = "[\<lparr>name = JStr ''B. Player'', score = ''-2'', thru = ''--'', position = ''MC''\<rparr>,
              \<lparr>name = JStr ''C. Player'', score = ''E'', thru = ''undefined'', position = ''2''\<rparr>]"
  have up: "parseLeaderboard (envAt 0 timedOut) unsortedPayload =
      Inr (Ok (JStr ''The Open'') ''Round 2'' (JStr ''Round 2'') ?ps ''2026-01-01T00:00:00.000Z'')"
    by code_simp
  have uc: "spec_competitors unsortedPayload = [competitorB, oddRoundCompetitor]"
    by code_simp
  have n5: "\<not> nullish oddRoundCompetitor"
    by (simp add: nullish_def oddRoundCompetitor_def)
  have 5: "stringOrAbsent (field oddRoundCompetitor ''status'')
       \<and> field oddRoundCompetitor ''status'' \<notin> JStr ` set (cutSpellings @ wdSpellings)"
    by (auto simp add: oddRoundCompetitor_def field_def own_def stringOrAbsent_def)
  have d2: "dec 2 = ''2''"
    by (simp add: dec_def dec_nat.simps digit_char_def)
  from C7_position [OF n5, where idx = 1] 5
  have "posOf 1 oddRoundCompetitor =
          (if truthy (field oddRoundCompetitor ''sortOrder'')
           then js_toString (field oddRoundCompetitor ''sortOrder'')
           else Inr (dec (int 1 + 1)))"
    by blast
  then have p2: "posOf 1 oddRoundCompetitor = Inr ''2''"
    by (simp add: oddRoundCompetitor_def field_def own_def d2)
  from C7_position [OF n(1), where e = "envAt 0 timedOut" and d = unsortedPayload
      and ps = ?ps, THEN conjunct2, THEN conjunct2, THEN conjunct2,
      THEN conjunct1, THEN mp, OF up]
  obtain mapped' where m': "?ps = filter (\<lambda>p. truthy (name p)) mapped'"
    "\<forall>i<length (spec_competitors unsortedPayload).
        posOf i (spec_competitors unsortedPayload ! i) = Inr (position (mapped' ! i))"
    by blast
  from m'(2) [rule_format, of 0] m'(2) [rule_format, of 1] r1 p2
  have "position (mapped' ! 0) = ''MC''" "position (mapped' ! 1) = ''2''"
    by (simp_all add: uc)
  with m'(1) up have r6: "\<exists>ps mapped. parseLeaderboard (envAt 0 timedOut) unsortedPayload
            = Inr (Ok (JStr ''The Open'') ''Round 2'' (JStr ''Round 2'') ps
                     ''2026-01-01T00:00:00.000Z'')
        \<and> ps = filter (\<lambda>p. truthy (name p)) mapped
        \<and> position (mapped ! 0) = ''MC'' \<and> position (mapped ! 1) = ''2''"
    by blast
  from r1 r2 r3 r4 r5 r6 show ?thesis by simp
qed

subsection \<open>The holes played\<close>

lemma finished_thru:
  assumes "parseLeaderboard e d = Inr (Ok t r rs ps f)" and "spec_finished d"
    and "p \<in> set ps"
  shows "thru p = ''F''"
proof -
  from parse_players[OF assms(1)] obtain mapped where
    m: "length mapped = length (spec_competitors d)" "ps = filter (\<lambda>p. truthy (name p)) mapped"
      "\<forall>i<length (spec_competitors d).
          playerEntry (numKey e) (bigString e) (spec_finished d) i (spec_competitors d ! i)
            = Inr (mapped ! i)"
    by blast
  from assms(3) m(2) have "p \<in> set mapped" by simp
  then obtain i where i: "i < length mapped" "p = mapped ! i"
    by (auto simp add: in_set_conv_nth)
  with m(1,3) assms(2)
  have "playerEntry (numKey e) (bigString e) True i (spec_competitors d ! i) = Inr p"
    by simp
  from playerEntry_thru[OF this] show ?thesis by (simp add: thruOf_def)
qed

lemma thruOf_finished: "thruOf nk True c = Inr ''F''"
  by (simp add: thruOf_def)

lemma thruOf_none:
  assumes "\<not> nullish c" "\<not> truthy (field c ''linescores'') \<or> field c ''linescores'' = JArr []"
  shows "thruOf nk False c = Inr ''--''"
  using assms by (auto simp add: thruOf_def getField_field)

lemma thruOf_last:
  assumes "\<not> nullish c" "field c ''linescores'' = JArr rs" "rs \<noteq> []"
  shows "thruOf nk False c =
     (if truthy (field (last rs) ''linescores'')
      then js_toString (js_length (field (last rs) ''linescores'')) else Inr ''F'')"
  using assms by (auto simp add: thruOf_def getField_field andField_field field_falsy)

text \<open>
  C8, as the claim states it, fails: when the last round has line scores that are no
  list (here the number 5), the thru value is the string form of their \<^verbatim>\<open>length\<close>
  property, \<^verbatim>\<open>undefined\<close>, which is neither a count of digits, nor \<^verbatim>\<open>F\<close>, nor \<^verbatim>\<open>--\<close>.
\<close>

theorem C8_thru_undefined:
  "parseLeaderboard (envAt 0 timedOut) oddRoundPayload = Inr oddRoundSnapshot
   \<and> \<not> spec_finished oddRoundPayload
   \<and> map thru (players oddRoundSnapshot) = [''undefined'']
   \<and> thruOf (numKey (envAt 0 timedOut)) False oddRoundCompetitor = Inr ''undefined''"
  by code_simp

text \<open>
  C8, amended. In an \<^verbatim>\<open>ok\<close> snapshot the players are the entries made of the competitors
  of the payload, in the order of the list, without those whose name is falsy, none of
  these competitors is null, and the thru of each entry is the thru value of its
  competitor, with \<open>isFinished\<close> true when the status name of the selected competition
  is \<^verbatim>\<open>STATUS_FINAL\<close> or \<^verbatim>\<open>STATUS_PLAY_COMPLETE\<close> and false otherwise. With
  \<open>isFinished\<close> true the thru value is \<^verbatim>\<open>F\<close> for every competitor, and the line
  scores are not read: every player of a finished snapshot has thru \<^verbatim>\<open>F\<close>. With
  \<open>isFinished\<close> false, for a competitor \<open>c\<close> that is not null: thru is \<^verbatim>\<open>--\<close> when
  the line scores are absent, falsy or the empty list; when they are a list of rounds,
  thru is \<^verbatim>\<open>F\<close> when the line scores of the last round are absent or falsy, the
  decimal count of those line scores when they are a list, and in general the string
  form of their \<^verbatim>\<open>length\<close> property.
\<close>

theorem C8_thru:
  "(parseLeaderboard e d = Inr (Ok t r rs ps f) \<longrightarrow>
      (\<exists>mapped. length mapped = length (spec_competitors d)
         \<and> ps = filter (\<lambda>p. truthy (name p)) mapped
         \<and> (\<forall>i<length (spec_competitors d).
               thruOf (numKey e) (spec_finished d) (spec_competitors d ! i)
                 = Inr (thru (mapped ! i)))))
   \<and> (parseLeaderboard e d = Inr (Ok t r rs ps f) \<and> spec_finished d
      \<longrightarrow> (\<forall>p\<in>set ps. thru p = ''F''))
   \<and> thruOf nk True c = Inr ''F''
   \<and> (\<not> nullish c \<and> (\<not> truthy (field c ''linescores'') \<or> field c ''linescores'' = JArr [])
      \<longrightarrow> thruOf nk False c = Inr ''--'')
   \<and> (\<not> nullish c \<and> field c ''linescores'' = JArr rounds \<and> rounds \<noteq> []
      \<longrightarrow> thruOf nk False c =
            (if truthy (field (last rounds) ''linescores'')
             then js_toString (js_length (field (last rounds) ''linescores''))
             else Inr ''F''))
   \<and> (\<not> nullish c \<and> field c ''linescores'' = JArr rounds \<and> rounds \<noteq> []
      \<and> field (last rounds) ''linescores'' = JArr holes
      \<longrightarrow> thruOf nk False c = Inr (dec (int (length holes))))
   \<and> (\<not> nullish c \<and> field c ''linescores'' = JArr rounds \<and> rounds \<noteq> []
      \<and> \<not> truthy (field (last rounds) ''linescores'')
      \<longrightarrow> thruOf nk False c = Inr ''F'')
   \<and> (parseLeaderboard e d = Inr (Ok t r rs ps f) \<longrightarrow>
        (\<forall>x\<in>set (spec_competitors d). \<not> nullish x))"
proof (intro conjI impI ballI)
  assume "parseLeaderboard e d = Inr (Ok t r rs ps f)"
  from parse_players[OF this] obtain mapped where
    m: "length mapped = length (spec_competitors d)" "ps = filter (\<lambda>p. truthy (name p)) mapped"
      "\<forall>i<length (spec_competitors d).
          playerEntry (numKey e) (bigString e) (spec_finished d) i (spec_competitors d ! i)
            = Inr (mapped ! i)"
    by blast
  from m(3) have "\<forall>i<length (spec_competitors d).
      thruOf (numKey e) (spec_finished d) (spec_competitors d ! i) = Inr (thru (mapped ! i))"
    by (auto dest: playerEntry_thru)
  with m(1,2) show "\<exists>mapped. length mapped = length (spec_competitors d)
         \<and> ps = filter (\<lambda>p. truthy (name p)) mapped
         \<and> (\<forall>i<length (spec_competitors d).
               thruOf (numKey e) (spec_finished d) (spec_competitors d ! i)
                 = Inr (thru (mapped ! i)))"
    by blast
next
  fix q
  assume "parseLeaderboard e d = Inr (Ok t r rs ps f) \<and> spec_finished d"
    and "q \<in> set ps"
  then show "thru q = ''F''" using finished_thru by blast
next
  show "thruOf nk True c = Inr ''F''" by (rule thruOf_finished)
next
  assume "\<not> nullish c \<and> (\<not> truthy (field c ''linescores'') \<or> field c ''linescores'' = JArr [])"
  then show "thruOf nk False c = Inr ''--''" using thruOf_none by blast
next
  assume "\<not> nullish c \<and> field c ''linescores'' = JArr rounds \<and> rounds \<noteq> []"
  then show "thruOf nk False c =
            (if truthy (field (last rounds) ''linescores'')
             then js_toString (js_length (field (last rounds) ''linescores''))
             else Inr ''F'')"
    by (simp add: thruOf_last)
next
  assume "\<not> nullish c \<and> field c ''linescores'' = JArr rounds \<and> rounds \<noteq> []
      \<and> field (last rounds) ''linescores'' = JArr holes"
  then show "thruOf nk False c = Inr (dec (int (length holes)))"
    by (simp add: thruOf_last)
next
  assume "\<not> nullish c \<and> field c ''linescores'' = JArr rounds \<and> rounds \<noteq> []
      \<and> \<not> truthy (field (last rounds) ''linescores'')"
  then show "thruOf nk False c = Inr ''F''"
    by (simp add: thruOf_last)
next
  fix x
  assume "parseLeaderboard e d = Inr (Ok t r rs ps f)" and "x \<in> set (spec_competitors d)"
  then show "\<not> nullish x" by (rule parse_competitors)
qed

theorem C8_thru_witness:
  "parseLeaderboard (envAt 0 timedOut) finalPayload = Inr finalSnapshot
   \<and> map thru (players finalSnapshot) = [''F'', ''F'']
   \<and> thruOf (\<lambda>s. None) False competitorA = Inr ''3''
   \<and> thruOf (\<lambda>s. None) False competitorB = Inr ''--''
   \<and> thruOf (\<lambda>s. None) False (JObj [(''linescores'', JArr [JObj []])]) = Inr ''F''
   \<and> (\<exists>mapped. players sampleSnapshot = filter (\<lambda>p. truthy (name p)) mapped
        \<and> thruOf (numKey (envAt 0 timedOut)) False competitorA = Inr (thru (mapped ! 0))
        \<and> thruOf (numKey (envAt 0 timedOut)) False competitorB = Inr (thru (mapped ! 1)))"
proof -
  have ev: "parseLeaderboard (envAt 0 timedOut) finalPayload = Inr finalSnapshot"
    by code_simp
  have st: "spec_finished finalPayload"
    by code_simp
  have a: "\<not> nullish competitorA \<and> field competitorA ''linescores''
        = JArr [JObj [(''linescores'', JArr [JObj [], JObj [], JObj []])]]
      \<and> [JObj [(''linescores'', JArr [JObj [], JObj [], JObj []])]] \<noteq> []
      \<and> field (last [JObj [(''linescores'', JArr [JObj [], JObj [], JObj []])]]) ''linescores''
        = JArr [JObj [], JObj [], JObj []]"
    by (simp add: nullish_def competitorA_def field_def own_def)
  have b: "\<not> nullish competitorB
      \<and> (\<not> truthy (field competitorB ''linescores'') \<or> field competitorB ''linescores'' = JArr [])"
    by (simp add: nullish_def competitorB_def field_def own_def)
  have c: "\<not> nullish (JObj [(''linescores'', JArr [JObj []])])
      \<and> field (JObj [(''linescores'', JArr [JObj []])]) ''linescores'' = JArr [JObj []]
      \<and> [JObj []] \<noteq> [] \<and> \<not> truthy (field (last [JObj []]) ''linescores'')"
    by (simp add: nullish_def field_def own_def)
  have d: "dec (int (length [JObj [], JObj [], JObj []])) = ''3''"
    by (simp add: dec_def dec_nat.simps digit_char_def)
  have fp: "parseLeaderboard (envAt 0 timedOut) finalPayload =
      Inr (Ok (JStr ''The Open'') ''Round 2'' (JStr ''Round 2'') (players finalSnapshot)
             ''2026-01-01T00:00:00.000Z'')"
    by (simp add: ev finalSnapshot_def)
  from C8_thru [where e = "envAt 0 timedOut" and d = finalPayload
      and ps = "players finalSnapshot", THEN conjunct2, THEN conjunct1] fp st
  have "\<forall>p\<in>set (players finalSnapshot). thru p = ''F''"
    by blast
  then have 1: "map thru (players finalSnapshot) = [''F'', ''F'']"
    by (simp add: finalSnapshot_def)
  from C8_thru [where c = competitorA and nk = "\<lambda>s. None"
      and rounds = "[JObj [(''linescores'', JArr [JObj [], JObj [], JObj []])]]"
      and holes = "[JObj [], JObj [], JObj []]"] a
  have 2: "thruOf (\<lambda>s. None) False competitorA = Inr ''3''"
    unfolding d by blast
  from C8_thru [where c = competitorB and nk = "\<lambda>s. None"] b
  have 3: "thruOf (\<lambda>s. None) False competitorB = Inr ''--''"
    by blast
  from C8_thru [where c = "JObj [(''linescores'', JArr [JObj []])]" and nk = "\<lambda>s. None"
      and rounds = "[JObj []]"] c
  have 4: "thruOf (\<lambda>s. None) False (JObj [(''linescores'', JArr [JObj []])]) = Inr ''F''"
    by blast
  have sp: "parseLeaderboard (envAt 0 timedOut) samplePayload =
      Inr (Ok (JStr ''The Open'') ''Round 2'' (JStr ''Round 2'') (players sampleSnapshot)
             ''2026-01-01T00:00:00.000Z'')"
    by (simp add: sample_parse sampleSnapshot_def)
  from C8_thru [where e = "envAt 0 timedOut" and d = samplePayload
      and ps = "players sampleSnapshot", THEN conjunct1, THEN mp, OF sp]
  obtain mapped where m: "players sampleSnapshot = filter (\<lambda>p. truthy (name p)) mapped"
    "\<forall>i<length (spec_competitors samplePayload).
        thruOf (numKey (envAt 0 timedOut)) (spec_finished samplePayload)
          (spec_competitors samplePayload ! i) = Inr (thru (mapped ! i))"
    by blast
  from m(2) [rule_format, of 0] m(2) [rule_format, of 1]
  have "thruOf (numKey (envAt 0 timedOut)) False competitorA = Inr (thru (mapped ! 0))"
    "thruOf (numKey (envAt 0 timedOut)) False competitorB = Inr (thru (mapped ! 1))"
    by (simp_all add: sample_competitors sample_not_finished)
  with m(1) have 5: "\<exists>mapped. players sampleSnapshot = filter (\<lambda>p. truthy (name p)) mapped
        \<and> thruOf (numKey (envAt 0 timedOut)) False competitorA = Inr (thru (mapped ! 0))
        \<and> thruOf (numKey (envAt 0 timedOut)) False competitorB = Inr (thru (mapped ! 1))"
    by blast
  from ev 1 2 3 4 5 show ?thesis by simp
qed

end
